theory Spec2Isabelle
  imports Complex_Main "HOL-Library.Multiset" "HOL-Library.List_Lexorder" "HOL-Library.Char_ord"
begin

section \<open>The occlusion-tolerant tracker (tracking/tracker.py)\<close>

text \<open>
  A bounding box is the tuple \<open>(x, y, w, h)\<close> that \<open>cv2.boundingRect\<close> returns. A contour
  is seen through the two functions the tracker calls on it: \<open>cv2.contourArea\<close> and
  \<open>cv2.boundingRect\<close>. A frame is seen through what the segmentation pipeline of
  \<open>process_frame\<close> (background subtraction, close, open, \<open>findContours\<close>) extracts from it,
  the contours in enumeration order, together with the reading of the wall clock
  (\<open>current_time_ms\<close>) at the moment the frame is processed.
\<close>

type_synonym bbox = "int \<times> int \<times> int \<times> int"

record contour =
  contourArea :: real
  boundingRect :: bbox

record frame =
  contours :: "contour list"
  clock_ms :: int

text \<open>
  The fields of \<open>FishTracker\<close> that the state machine reads and writes. A row of
  \<open>centroid_data\<close> is the formatted time stamp followed by the centroid.
\<close>

type_synonym timestamp = "int \<times> int \<times> int \<times> int"

record FishTracker =
  last_bbox :: "bbox option"
  no_movement_frames :: int
  max_no_movement_frames :: int
  centroid_data :: "(timestamp \<times> int \<times> int) list"
  positions :: "(int \<times> int) list"
  valid_frame :: "frame option"
  start_time :: int

text \<open>\<open>__init__\<close>: the state a tracker starts in, given the clock reading at construction.\<close>

definition init_tracker :: "int \<Rightarrow> FishTracker" where
  "init_tracker now =
     \<lparr>last_bbox = None, no_movement_frames = 0, max_no_movement_frames = 10,
      centroid_data = [], positions = [], valid_frame = None, start_time = now\<rparr>"

text \<open>
  \<open>format_time\<close>: hours, minutes, seconds and milliseconds of an elapsed time; the source
  prints the four numbers zero-padded and separated by colons.
\<close>

definition format_time :: "int \<Rightarrow> timestamp" where
  "format_time ms =
     (let seconds = ms div 1000;
          minutes = seconds div 60;
          hours = minutes div 60;
          milliseconds = ms mod 1000
      in (hours, minutes mod 60, seconds mod 60, milliseconds))"

definition log_centroid :: "int \<Rightarrow> int \<Rightarrow> int \<Rightarrow> FishTracker \<Rightarrow> FishTracker" where
  "log_centroid now cx cy s =
     (let t_ms = now - start_time s;
          stamp = format_time t_ms
      in s\<lparr>centroid_data := centroid_data s @ [(stamp, cx, cy)],
            positions := positions s @ [(cx, cy)]\<rparr>)"

definition centroid :: "bbox \<Rightarrow> int \<times> int" where
  "centroid b = (case b of (x, y, w, h) \<Rightarrow> (x + w div 2, y + h div 2))"

text \<open>
  The \<open>for cnt in contours\<close> loop of \<open>process_frame\<close>: contours of area below 500 are passed
  over, the first other one is taken and the loop is left.
\<close>

fun first_region :: "contour list \<Rightarrow> bbox option" where
  "first_region [] = None"
| "first_region (cnt # cnts) =
     (if contourArea cnt < 500 then first_region cnts else Some (boundingRect cnt))"

text \<open>
  \<open>process_frame\<close>. With a detection the centroid is logged, \<open>last_bbox\<close> is set and (the
  \<open>elif detected\<close> branch) the streak is cleared. Without one, a remembered box and a streak
  not above \<open>max_no_movement_frames\<close> log the remembered centroid and add one to the streak.
  A box is a 4-tuple, so \<open>self.last_bbox\<close> is true exactly when it is not \<open>None\<close>.
\<close>

definition process_frame :: "FishTracker \<Rightarrow> frame \<Rightarrow> FishTracker" where
  "process_frame s f =
     (case first_region (contours f) of
        Some b \<Rightarrow>
          (let (cx, cy) = centroid b;
               s1 = log_centroid (clock_ms f) cx cy s;
               s2 = s1\<lparr>last_bbox := Some b\<rparr>
           in s2\<lparr>no_movement_frames := 0\<rparr>)
      | None \<Rightarrow>
          (case last_bbox s of
             Some b \<Rightarrow>
               if no_movement_frames s \<le> max_no_movement_frames s
               then (let (cx, cy) = centroid b;
                         s1 = log_centroid (clock_ms f) cx cy s
                     in s1\<lparr>no_movement_frames := no_movement_frames s1 + 1\<rparr>)
               else s
           | None \<Rightarrow> s))"

text \<open>
  The body of the \<open>while\<close> loop of \<open>run\<close> (without a preview window): the frame that was
  read is remembered in \<open>valid_frame\<close> and processed. \<open>feed\<close> runs it over the frames that
  were read, in order.
\<close>

definition run_step :: "FishTracker \<Rightarrow> frame \<Rightarrow> FishTracker" where
  "run_step s f = process_frame (s\<lparr>valid_frame := Some f\<rparr>) f"

fun feed :: "FishTracker \<Rightarrow> frame list \<Rightarrow> FishTracker" where
  "feed s [] = s"
| "feed s (f # fs) = feed (run_step s f) fs"

text \<open>A frame has a detection when some contour reaches the area threshold.\<close>

definition detected :: "frame \<Rightarrow> bool" where
  "detected f = (first_region (contours f) \<noteq> None)"

text \<open>A frame logs a synthetic point when it has no detection and yet extends the trail.\<close>

definition synthesized :: "FishTracker \<Rightarrow> frame \<Rightarrow> bool" where
  "synthesized s f =
     (\<not> detected f \<and> length (positions (process_frame s f)) = Suc (length (positions s)))"


section \<open>Exceptions and paths\<close>

text \<open>
  The exceptions the code meets, all of them subclasses of \<open>Exception\<close>; an exception is
  its class and its text (\<open>str(e)\<close>).
\<close>

datatype exn_class =
  KeyError | ValueError | TypeError | ZeroDivisionError | OverflowError | OSError | CvError

type_synonym exn = "exn_class \<times> string"

text \<open>
  \<open>os.path\<close> on a POSIX system: \<open>join\<close> of two components, \<open>basename\<close>, \<open>dirname\<close> and
  \<open>splitext\<close>; \<open>rfind\<close> is \<open>str.rfind\<close> for one character.
\<close>

definition join :: "string \<Rightarrow> string \<Rightarrow> string" where
  "join a b =
     (if b \<noteq> [] \<and> hd b = CHR ''/'' then b
      else if a = [] \<or> last a = CHR ''/'' then a @ b
      else a @ ''/'' @ b)"

definition rfind :: "char \<Rightarrow> string \<Rightarrow> int" where
  "rfind c p =
     (if c \<in> set p then int (length p) - 1 - int (length (takeWhile (\<lambda>x. x \<noteq> c) (rev p)))
      else - 1)"

definition basename :: "string \<Rightarrow> string" where
  "basename p = drop (nat (rfind (CHR ''/'') p + 1)) p"

fun rstrip_sep :: "string \<Rightarrow> string" where
  "rstrip_sep p = rev (dropWhile (\<lambda>x. x = CHR ''/'') (rev p))"

definition dirname :: "string \<Rightarrow> string" where
  "dirname p =
     (let head = take (nat (rfind (CHR ''/'') p + 1)) p
      in if head \<noteq> [] \<and> head \<noteq> replicate (length head) (CHR ''/'') then rstrip_sep head
         else head)"

definition splitext :: "string \<Rightarrow> string \<times> string" where
  "splitext p =
     (let sepIndex = rfind (CHR ''/'') p;
          dotIndex = rfind (CHR ''.'') p
      in if dotIndex > sepIndex \<and>
            list_ex (\<lambda>x. x \<noteq> CHR ''.'')
              (take (nat (dotIndex - (sepIndex + 1))) (drop (nat (sepIndex + 1)) p))
         then (take (nat dotIndex) p, drop (nat dotIndex) p)
         else (p, []))"

text \<open>\<open>str.lower\<close> on ASCII letters and \<open>str.endswith\<close>.\<close>

definition lower_char :: "char \<Rightarrow> char" where
  "lower_char c =
     (case map_of (zip ''ABCDEFGHIJKLMNOPQRSTUVWXYZ'' ''abcdefghijklmnopqrstuvwxyz'') c of
        Some l \<Rightarrow> l
      | None \<Rightarrow> c)"

definition lower :: "string \<Rightarrow> string" where
  "lower s = map lower_char s"

definition endswith :: "string \<Rightarrow> string \<Rightarrow> bool" where
  "endswith s suffix =
     (length suffix \<le> length s \<and> drop (length s - length suffix) s = suffix)"

section \<open>Running and saving one video (tracking/tracker.py, tracking/tracker_wrapper.py)\<close>

text \<open>
  What one job meets outside the program: the base path of \<open>get_resource_path\<close>, whether
  \<open>os.makedirs\<close> fails in the constructor, the clock at construction, whether the capture
  opened, what each pass of the \<open>while\<close> loop of \<open>run\<close> gets until \<open>read\<close> returns no frame
  (a frame, or an exception raised by \<open>read\<close> or by OpenCV while the frame is processed),
  whether writing the table or building the heatmap raises, and what \<open>cv2.imwrite\<close>
  returns: it reports a file it could not write by returning \<open>False\<close>, which
  \<open>save_results\<close> does not look at.
\<close>

record job_env =
  base_path :: string
  makedirs_error :: "exn option"
  clock0 :: int
  cap_opened :: bool
  reads :: "(exn + frame) list"
  csv_error :: "exn option"
  heatmap_error :: "exn option"
  imwrite_ok :: bool

text \<open>The files a job writes: the trajectory table and the heatmap overlay.\<close>

datatype artifact =
  Csv string "(timestamp \<times> int \<times> int) list"
| Heatmap string "(int \<times> int) list"

definition construct :: "job_env \<Rightarrow> exn + FishTracker" where
  "construct env =
     (case makedirs_error env of
        Some e \<Rightarrow> Inl e
      | None \<Rightarrow> Inr (init_tracker (clock0 env)))"

fun run_loop :: "FishTracker \<Rightarrow> (exn + frame) list \<Rightarrow> exn + FishTracker" where
  "run_loop s [] = Inr s"
| "run_loop s (Inl e # rs) = Inl e"
| "run_loop s (Inr f # rs) = run_loop (run_step s f) rs"

text \<open>\<open>run\<close>: the loop is entered only while the capture is open.\<close>

definition run :: "job_env \<Rightarrow> FishTracker \<Rightarrow> exn + FishTracker" where
  "run env s = (if cap_opened env then run_loop s (reads env) else Inr s)"

text \<open>
  \<open>save_results\<close>: the files written, and how the call ends. Without a valid frame it prints
  a line and returns; otherwise the table is written first and the heatmap after it. When
  \<open>cv2.imwrite\<close> returns \<open>False\<close> no heatmap file exists and the call still returns
  normally.
\<close>

definition save_results ::
  "job_env \<Rightarrow> string \<Rightarrow> string \<Rightarrow> FishTracker \<Rightarrow> artifact list \<times> (exn + unit)" where
  "save_results env video_path output_dir s =
     (case valid_frame s of
        None \<Rightarrow> ([], Inr ())
      | Some fr \<Rightarrow>
          (let video_name = fst (splitext (basename video_path));
               csv_path = join (join output_dir ''data'') (video_name @ ''.csv'');
               heatmap_path = join (join output_dir ''heatmaps'') (video_name @ ''.png'')
           in case csv_error env of
                Some e \<Rightarrow> ([], Inl e)
              | None \<Rightarrow>
                  (case heatmap_error env of
                     Some e \<Rightarrow> ([Csv csv_path (centroid_data s)], Inl e)
                   | None \<Rightarrow>
                       if imwrite_ok env
                       then ([Csv csv_path (centroid_data s), Heatmap heatmap_path (positions s)],
                             Inr ())
                       else ([Csv csv_path (centroid_data s)], Inr ()))))"

definition get_resource_path :: "job_env \<Rightarrow> string \<Rightarrow> string" where
  "get_resource_path env relative_path = join (base_path env) relative_path"

text \<open>
  The string \<open>process_video\<close> returns, by its two shapes: success with the video's base
  name, or failure with the base name and the text of the exception.
\<close>

datatype message = Success string | Failed string string

text \<open>The \<open>try\<close> block of \<open>process_video\<close>: the files written and the value or exception.\<close>

definition process_video_try ::
  "job_env \<Rightarrow> string \<Rightarrow> string \<Rightarrow> artifact list \<times> (exn + message)" where
  "process_video_try env video_path output_dir =
     (let video_path = get_resource_path env video_path;
          output_dir = get_resource_path env output_dir
      in case construct env of
           Inl e \<Rightarrow> ([], Inl e)
         | Inr tracker \<Rightarrow>
             (case run env tracker of
                Inl e \<Rightarrow> ([], Inl e)
              | Inr tracker \<Rightarrow>
                  (case save_results env video_path output_dir tracker of
                     (out, Inl e) \<Rightarrow> (out, Inl e)
                   | (out, Inr u) \<Rightarrow> (out, Inr (Success (basename video_path))))))"

text \<open>
  \<open>process_video\<close>: the \<open>except Exception\<close> clause turns an exception of the \<open>try\<close> block
  into the failure message. The first statement of the block cannot raise, so the handler
  sees the reassigned \<open>video_path\<close>.
\<close>

definition process_video ::
  "job_env \<Rightarrow> string \<Rightarrow> string \<Rightarrow> artifact list \<times> (exn + message)" where
  "process_video env video_path output_dir =
     (case process_video_try env video_path output_dir of
        (out, Inr m) \<Rightarrow> (out, Inr m)
      | (out, Inl e) \<Rightarrow>
          (out, Inr (Failed (basename (get_resource_path env video_path)) (snd e))))"

section \<open>The batch orchestrator (tracking/No_GUI.py)\<close>

text \<open>
  What a run meets outside the program: which paths are directories, the listing of a
  directory, what the job of each video path meets, the order in which
  \<open>concurrent.futures.as_completed\<close> hands back the jobs submitted for a batch, and the
  order in which the file writes of the concurrent jobs of a batch (given job by job, in
  order of submission) reach the disk.
\<close>

record world =
  isdir :: "string \<Rightarrow> bool"
  listdir :: "string \<Rightarrow> string list"
  job :: "string \<Rightarrow> job_env"
  as_completed :: "string list \<Rightarrow> string list"
  write_order :: "artifact list \<Rightarrow> artifact list"

definition BATCH_SIZE :: nat where
  "BATCH_SIZE = 10"

text \<open>The lines of the run log, by their shapes.\<close>

datatype log_line =
  Starting_batch "string list"
| Completed string message
| Error_with string string
| Finished_batch "string list"

definition is_video :: "string \<Rightarrow> bool" where
  "is_video f =
     (endswith (lower f) ''.mp4'' \<or> endswith (lower f) ''.avi'' \<or> endswith (lower f) ''.mov'')"

definition video_files :: "world \<Rightarrow> string \<Rightarrow> string list" where
  "video_files w video_folder =
     sort (map (join video_folder) (filter is_video (listdir w video_folder)))"

text \<open>
  \<open>for batch_start in range(0, total, BATCH_SIZE)\<close> with the slice
  \<open>video_files[batch_start:batch_start + BATCH_SIZE]\<close>.
\<close>

function batches :: "nat \<Rightarrow> 'a list \<Rightarrow> 'a list list" where
  "batches n xs = (if n = 0 \<or> xs = [] then [] else take n xs # batches n (drop n xs))"
  by pat_completeness auto
termination
  by (relation "measure (\<lambda>(n, xs). length xs)") auto

text \<open>
  The body of the \<open>as_completed\<close> loop: \<open>future.result()\<close> gives what \<open>process_video\<close>
  returned or raises what it raised.
\<close>

definition job_line :: "world \<Rightarrow> string \<Rightarrow> string \<Rightarrow> log_line" where
  "job_line w output_folder video =
     (let video_name = basename video
      in case snd (process_video (job w video) video output_folder) of
           Inr result \<Rightarrow> Completed video_name result
         | Inl e \<Rightarrow> Error_with video_name (snd e))"

definition run_batch :: "world \<Rightarrow> string \<Rightarrow> string list \<Rightarrow> log_line list" where
  "run_batch w output_folder batch =
     (let batch_names = map basename batch
      in [Starting_batch batch_names]
         @ map (job_line w output_folder) (as_completed w batch)
         @ [Finished_batch batch_names])"

text \<open>\<open>run_tracking\<close>: \<open>Inl 1\<close> is \<open>sys.exit(1)\<close>, \<open>Inr\<close> the lines written to the log.\<close>

definition run_tracking :: "world \<Rightarrow> string \<Rightarrow> string \<Rightarrow> int + log_line list" where
  "run_tracking w video_folder output_folder =
     (if \<not> isdir w video_folder then Inl 1
      else if \<not> isdir w output_folder then Inl 1
      else if video_files w video_folder = [] then Inl 1
      else Inr (concat (map (run_batch w output_folder)
                  (batches BATCH_SIZE (video_files w video_folder)))))"






text \<open>The lines of a log that report a job.\<close>

definition job_lines :: "log_line list \<Rightarrow> log_line list" where
  "job_lines logged =
     filter (\<lambda>l. case l of Completed n m \<Rightarrow> True | Error_with n t \<Rightarrow> True | _ \<Rightarrow> False) logged"

section \<open>The distance summarizer (tracking/distance_calculator.py)\<close>

text \<open>
  A field of a row of \<open>csv.DictReader\<close> as \<open>int(row[key])\<close> meets it: the key is not in
  the row (the header has no such column), the value is \<open>None\<close> (the row is shorter than the
  header and the reader filled the cell with its \<open>restval\<close>), the value is text that \<open>int\<close>
  rejects, or text that \<open>int\<close> reads.
\<close>

datatype field = No_key | None_value | Not_int | Int_text int

record csv_row =
  Centroid_X :: field
  Centroid_Y :: field

fun int_field :: "field \<Rightarrow> exn + int" where
  "int_field No_key = Inl (KeyError, ''Centroid'')"
| "int_field None_value = Inl (TypeError, ''int() argument'')"
| "int_field Not_int = Inl (ValueError, ''invalid literal for int()'')"
| "int_field (Int_text n) = Inr n"

text \<open>
  The inner \<open>try\<close> of the reading loop: \<open>Inr None\<close> is a row skipped by
  \<open>except (KeyError, ValueError)\<close>; any other exception leaves the loop.
\<close>

definition skipped :: "exn \<Rightarrow> bool" where
  "skipped e = (fst e = KeyError \<or> fst e = ValueError)"

definition read_row :: "csv_row \<Rightarrow> exn + (int \<times> int) option" where
  "read_row row =
     (case int_field (Centroid_X row) of
        Inl e \<Rightarrow> if skipped e then Inr None else Inl e
      | Inr x \<Rightarrow>
          (case int_field (Centroid_Y row) of
             Inl e \<Rightarrow> if skipped e then Inr None else Inl e
           | Inr y \<Rightarrow> Inr (Some (x, y))))"

text \<open>\<open>for idx, row in enumerate(reader)\<close>, with \<open>points\<close> as the accumulator.\<close>

fun read_loop ::
  "int \<Rightarrow> (nat \<times> csv_row) list \<Rightarrow> (int \<times> int) list \<Rightarrow> exn + (int \<times> int) list" where
  "read_loop frame_skip [] points = Inr points"
| "read_loop frame_skip ((idx, row) # rest) points =
     (if frame_skip = 0 then Inl (ZeroDivisionError, ''integer modulo by zero'')
      else if int idx mod frame_skip \<noteq> 0 then read_loop frame_skip rest points
      else case read_row row of
             Inl e \<Rightarrow> Inl e
           | Inr None \<Rightarrow> read_loop frame_skip rest points
           | Inr (Some p) \<Rightarrow> read_loop frame_skip rest (points @ [p]))"

text \<open>
  What the summarizer meets outside the program: which paths exist, the listing of a
  directory, the integer width and height of a video that opens (\<open>None\<close> when it does
  not), and the rows of a table (or the exception raised on opening or reading it).
\<close>

record files =
  path_exists :: "string \<Rightarrow> bool"
  dir_listing :: "string \<Rightarrow> string list"
  video_size :: "string \<Rightarrow> (int \<times> int) option"
  csv_rows :: "string \<Rightarrow> exn + csv_row list"

text \<open>
  \<open>math.sqrt\<close> turns its integer argument into a float first, and that conversion raises
  \<open>OverflowError\<close> for an integer that rounds (to nearest, ties to even) beyond the largest
  double \<open>2 ^ 1024 - 2 ^ 971\<close>: the integers from \<open>2 ^ 1024 - 2 ^ 970\<close> on.
\<close>

definition float_overflows :: "int \<Rightarrow> bool" where
  "float_overflows n = (2 ^ 1024 - 2 ^ 970 \<le> n)"

text \<open>
  One term of the generator expression under \<open>sum\<close>, and \<open>sum\<close> itself, which takes the
  terms one after the other and stops at the first that raises. The floats that do not
  raise are taken as real numbers.
\<close>

definition sqrt_term :: "(int \<times> int) list \<Rightarrow> nat \<Rightarrow> exn + real" where
  "sqrt_term points i =
     (let n = (fst (points ! i) - fst (points ! (i - 1)))\<^sup>2
              + (snd (points ! i) - snd (points ! (i - 1)))\<^sup>2
      in if float_overflows n then Inl (OverflowError, ''int too large to convert to float'')
         else Inr (sqrt (real_of_int n)))"

fun sum_terms :: "(exn + real) list \<Rightarrow> real \<Rightarrow> exn + real" where
  "sum_terms [] acc = Inr acc"
| "sum_terms (Inl e # terms) acc = Inl e"
| "sum_terms (Inr x # terms) acc = sum_terms terms (acc + x)"

definition total_pixel_distance :: "(int \<times> int) list \<Rightarrow> exn + real" where
  "total_pixel_distance points = sum_terms (map (sqrt_term points) [1..<length points]) 0"

text \<open>
  \<open>calculate_total_distance\<close>: \<open>Inr None\<close> is the returned \<open>None\<close>, \<open>Inr (Some d)\<close> a
  returned distance, and \<open>Inl\<close> the \<open>OverflowError\<close> of the sum or the
  \<open>ZeroDivisionError\<close> of the two divisions, which all stand outside every \<open>try\<close>.
\<close>

definition calculate_total_distance ::
  "files \<Rightarrow> string \<Rightarrow> string \<Rightarrow> real \<Rightarrow> real \<Rightarrow> int \<Rightarrow> exn + real option" where
  "calculate_total_distance fs csv_path video_path real_width_cm real_height_cm frame_skip =
     (case video_size fs video_path of
        None \<Rightarrow> Inr None
      | Some (frame_width, frame_height) \<Rightarrow>
          (case csv_rows fs csv_path of
             Inl e \<Rightarrow> Inr None
           | Inr rows \<Rightarrow>
               (case read_loop frame_skip (enumerate 0 rows) [] of
                  Inl e \<Rightarrow> Inr None
                | Inr points \<Rightarrow>
                    if length points < 2 then Inr (Some 0)
                    else
                      (case total_pixel_distance points of
                         Inl e \<Rightarrow> Inl e
                       | Inr pixels \<Rightarrow>
                           if frame_width = 0 then Inl (ZeroDivisionError, ''division by zero'')
                           else if frame_height = 0
                           then Inl (ZeroDivisionError, ''division by zero'')
                           else
                             (let pixel_to_cm_x = real_width_cm / real_of_int frame_width;
                                  pixel_to_cm_y = real_height_cm / real_of_int frame_height;
                                  pixel_to_cm = (pixel_to_cm_x + pixel_to_cm_y) / 2
                              in Inr (Some (pixels * pixel_to_cm)))))))"

text \<open>A cell of the summary table: the distance (printed with two decimals) or \<open>Error\<close>.\<close>

datatype cell = Distance real | Error

text \<open>\<open>for csv_file in csv_files\<close>, with \<open>results\<close> as the accumulator.\<close>

fun summary_loop ::
  "files \<Rightarrow> string \<Rightarrow> string \<Rightarrow> string list \<Rightarrow> (string \<times> cell) list
     \<Rightarrow> exn + (string \<times> cell) list" where
  "summary_loop fs data_dir videos_dir [] results = Inr results"
| "summary_loop fs data_dir videos_dir (csv_file # rest) results =
     (let name = fst (splitext csv_file);
          video_path = join videos_dir (name @ ''.mp4'');
          csv_path = join data_dir csv_file
      in if \<not> path_exists fs video_path then summary_loop fs data_dir videos_dir rest results
         else case calculate_total_distance fs csv_path video_path 28 14 60 of
                Inl e \<Rightarrow> Inl e
              | Inr (Some distance) \<Rightarrow>
                  summary_loop fs data_dir videos_dir rest (results @ [(name, Distance distance)])
              | Inr None \<Rightarrow>
                  summary_loop fs data_dir videos_dir rest (results @ [(name, Error)]))"

text \<open>
  \<open>calculate_summary\<close>: \<open>Inr None\<close> is the returned \<open>None\<close>, \<open>Inr (Some (path, rows))\<close> the
  path of the summary table with the rows written under its header; writing the table is
  taken to succeed. \<open>Inl\<close> is an exception of \<open>calculate_total_distance\<close>, which nothing
  here catches.
\<close>

definition calculate_summary ::
  "files \<Rightarrow> string \<Rightarrow> string option \<Rightarrow> exn + (string \<times> (string \<times> cell) list) option" where
  "calculate_summary fs output_root videos_dir_arg =
     (let data_dir = join output_root ''data'';
          videos_dir = (case videos_dir_arg of
                          None \<Rightarrow> join (dirname output_root) ''videos''
                        | Some d \<Rightarrow> d);
          summary_csv = join output_root ''distance_summary.csv''
      in if \<not> path_exists fs data_dir \<or> \<not> path_exists fs videos_dir then Inr None
         else
           (let csv_files = filter (\<lambda>f. endswith (lower f) ''.csv'') (dir_listing fs data_dir)
            in if csv_files = [] then Inr None
               else case summary_loop fs data_dir videos_dir csv_files [] of
                      Inl e \<Rightarrow> Inl e
                    | Inr results \<Rightarrow> Inr (Some (summary_csv, results))))"

text \<open>
  The spec's words for the same computation. Downsampling keeps the rows whose 0-based
  index is a multiple of the step; a row is usable when both centroid fields are text that
  \<open>int\<close> reads; the pixel distance is the sum of the Euclidean distances between
  consecutive points. Two descriptions of the inputs on which the code leaves this
  computation: a row is short when \<open>int\<close> meets a missing cell in it (the first field, or
  the second after a first that reads), and a trail fits when the squared length of each
  of its steps is an integer a float can hold.
\<close>

definition every_nth :: "int \<Rightarrow> 'a list \<Rightarrow> 'a list" where
  "every_nth n rows = map snd (filter (\<lambda>(idx, row). n dvd int idx) (enumerate 0 rows))"

definition usable :: "csv_row \<Rightarrow> (int \<times> int) option" where
  "usable row =
     (case (Centroid_X row, Centroid_Y row) of
        (Int_text x, Int_text y) \<Rightarrow> Some (x, y)
      | _ \<Rightarrow> None)"

definition usable_points :: "csv_row list \<Rightarrow> (int \<times> int) list" where
  "usable_points rows = List.map_filter usable rows"

definition euclid :: "int \<times> int \<Rightarrow> int \<times> int \<Rightarrow> real" where
  "euclid p q = sqrt ((real_of_int (fst q - fst p))\<^sup>2 + (real_of_int (snd q - snd p))\<^sup>2)"

fun path_length :: "(int \<times> int) list \<Rightarrow> real" where
  "path_length (p # q # ps) = euclid p q + path_length (q # ps)"
| "path_length ps = 0"

definition short :: "csv_row \<Rightarrow> bool" where
  "short row =
     (case (Centroid_X row, Centroid_Y row) of
        (None_value, y) \<Rightarrow> True
      | (Int_text x, None_value) \<Rightarrow> True
      | _ \<Rightarrow> False)"

definition squared_step :: "int \<times> int \<Rightarrow> int \<times> int \<Rightarrow> int" where
  "squared_step p q = (fst q - fst p)\<^sup>2 + (snd q - snd p)\<^sup>2"

fun fits :: "(int \<times> int) list \<Rightarrow> bool" where
  "fits (p # q # ps) = (squared_step p q < 2 ^ 1024 - 2 ^ 970 \<and> fits (q # ps))"
| "fits ps = True"

section \<open>Sample inputs\<close>

text \<open>
  A frame with a speck below the area threshold followed by a region above it, and a frame
  whose only region stays below the threshold.
\<close>

definition fish :: frame where
  "fish = \<lparr>contours = [\<lparr>contourArea = 120, boundingRect = (0, 0, 5, 5)\<rparr>,
                        \<lparr>contourArea = 600, boundingRect = (10, 20, 4, 6)\<rparr>],
            clock_ms = 40\<rparr>"

definition empty_tank :: frame where
  "empty_tank = \<lparr>contours = [\<lparr>contourArea = 499, boundingRect = (1, 1, 30, 30)\<rparr>],
                  clock_ms = 80\<rparr>"

text \<open>
  Jobs: one that reads two frames and writes its files, one whose capture does not open,
  one whose capture opens and yields no frame, and one on which OpenCV raises at the second
  frame. A folder with three videos and a text file, whose second video meets the raising
  job, and whose jobs complete in the reverse of the order of submission.
\<close>

definition quiet_job :: job_env where
  "quiet_job = \<lparr>base_path = ''/srv/app'', makedirs_error = None, clock0 = 0, cap_opened = True,
                 reads = [Inr fish, Inr empty_tank], csv_error = None, heatmap_error = None,
                 imwrite_ok = True\<rparr>"

definition unopened_job :: job_env where
  "unopened_job = quiet_job\<lparr>cap_opened := False\<rparr>"

definition frameless_job :: job_env where
  "frameless_job = quiet_job\<lparr>reads := []\<rparr>"

definition faulty_job :: job_env where
  "faulty_job = quiet_job\<lparr>reads := [Inr fish, Inl (CvError, ''bad frame'')]\<rparr>"

definition small_world :: world where
  "small_world =
     \<lparr>isdir = (\<lambda>p. p = ''in'' \<or> p = ''out''),
      listdir = (\<lambda>p. if p = ''in'' then [''c.MOV'', ''notes.txt'', ''b.avi'', ''a.mp4''] else []),
      job = (\<lambda>v. if v = ''in/b.avi'' then faulty_job else quiet_job),
      as_completed = rev,
      write_order = (\<lambda>writes. writes)\<rparr>"

text \<open>
  Tables: a row with both centroid fields readable, five such rows, and the files of a run
  whose one table \<open>t.csv\<close> has given rows and whose video \<open>t.mp4\<close> is 56 by 28 pixels.
\<close>

definition point_row :: "int \<Rightarrow> int \<Rightarrow> csv_row" where
  "point_row x y = \<lparr>Centroid_X = Int_text x, Centroid_Y = Int_text y\<rparr>"

definition five_rows :: "csv_row list" where
  "five_rows = [point_row 0 0, point_row 1 1, point_row 3 4, point_row 7 7, point_row 6 8]"

definition one_table :: "csv_row list \<Rightarrow> files" where
  "one_table rows =
     \<lparr>path_exists = (\<lambda>p. p = ''run/out/data'' \<or> p = ''run/videos'' \<or> p = ''run/videos/t.mp4''),
      dir_listing = (\<lambda>p. if p = ''run/out/data'' then [''t.csv''] else []),
      video_size = (\<lambda>p. if p = ''run/videos/t.mp4'' then Some (56, 28) else None),
      csv_rows = (\<lambda>p. if p = ''run/out/data/t.csv'' then Inr rows else Inl (OSError, ''No such file''))\<rparr>"

text \<open>A row one cell shorter than the header: \<open>Centroid_Y\<close> is the reader's \<open>None\<close>.\<close>

definition short_row :: csv_row where
  "short_row = \<lparr>Centroid_X = Int_text 5, Centroid_Y = None_value\<rparr>"

text \<open>
  The files of a run with given tables in \<open>run/out/data\<close> and given videos in
  \<open>run/videos\<close>; every video opens at 56 by 28 pixels and every table holds one complete row.
\<close>

definition run_files :: "string list \<Rightarrow> string list \<Rightarrow> files" where
  "run_files tables videos =
     \<lparr>path_exists = (\<lambda>p. p = ''run/out/data'' \<or> p = ''run/videos''
                          \<or> p \<in> set (map (join ''run/videos'') videos)),
      dir_listing = (\<lambda>p. if p = ''run/out/data'' then tables else []),
      video_size = (\<lambda>p. if p \<in> set (map (join ''run/videos'') videos) then Some (56, 28) else None),
      csv_rows = (\<lambda>p. Inr [point_row 5 5])\<rparr>"

text \<open>
  A row whose first field is not a number, and a table of seven rows: complete rows at the
  indices 0, 3 and 6, and rows that are no numbers or short between them.
\<close>

definition junk_row :: csv_row where
  "junk_row = \<lparr>Centroid_X = Not_int, Centroid_Y = Int_text 9\<rparr>"

definition seven_rows :: "csv_row list" where
  "seven_rows =
     [point_row 0 0, junk_row, short_row, point_row 3 4, junk_row, short_row, point_row 6 8]"

text \<open>A table of three rows whose middle row is short.\<close>

definition gap_rows :: "csv_row list" where
  "gap_rows = [point_row 0 0, short_row, point_row 3 4]"


section \<open>Properties of the tracker\<close>

lemma process_frame_detect:
  assumes "first_region (contours f) = Some b"
  shows "process_frame s f =
     s\<lparr>centroid_data := centroid_data s @ [(format_time (clock_ms f - start_time s), fst (centroid b), snd (centroid b))],
       positions := positions s @ [centroid b],
       last_bbox := Some b, no_movement_frames := 0\<rparr>"
  using assms by (simp add: process_frame_def log_centroid_def Let_def split: prod.splits)

lemma process_frame_hold:
  assumes "first_region (contours f) = None" "last_bbox s = Some b"
    "no_movement_frames s \<le> max_no_movement_frames s"
  shows "process_frame s f =
     s\<lparr>centroid_data := centroid_data s @ [(format_time (clock_ms f - start_time s), fst (centroid b), snd (centroid b))],
       positions := positions s @ [centroid b],
       no_movement_frames := no_movement_frames s + 1\<rparr>"
  using assms by (simp add: process_frame_def log_centroid_def Let_def split: prod.splits)

lemma process_frame_silent:
  assumes "first_region (contours f) = None"
    "last_bbox s = None \<or> \<not> no_movement_frames s \<le> max_no_movement_frames s"
  shows "process_frame s f = s"
  using assms by (auto simp add: process_frame_def split: option.splits)

lemma not_detected: "(\<not> detected f) = (first_region (contours f) = None)"
  unfolding detected_def by blast

text \<open>
  A run of frames without a detection, met by a tracker that remembers a box: the
  remembered centroid is logged until the streak has passed the maximum, and never after.
\<close>

lemma feed_gap:
  assumes "\<forall>f \<in> set gap. \<not> detected f" "last_bbox s = Some b"
    "no_movement_frames s = n" "max_no_movement_frames s = m"
  shows "positions (feed s gap) = positions s @ replicate (min (length gap) (nat (m + 1 - n))) (centroid b)
     \<and> map snd (centroid_data (feed s gap)) = map snd (centroid_data s) @ replicate (min (length gap) (nat (m + 1 - n))) (centroid b)
     \<and> no_movement_frames (feed s gap) = n + int (min (length gap) (nat (m + 1 - n)))
     \<and> last_bbox (feed s gap) = Some b
     \<and> max_no_movement_frames (feed s gap) = m
     \<and> start_time (feed s gap) = start_time s"
  using assms
proof (induction gap arbitrary: s n)
  case Nil
  then show ?case by simp
next
  case (Cons f gap)
  from Cons.prems(1) have none: "first_region (contours f) = None" and rest: "\<forall>f \<in> set gap. \<not> detected f"
    by (simp_all add: not_detected)
  let ?s0 = "s\<lparr>valid_frame := Some f\<rparr>"
  show ?case
  proof (cases "n \<le> m")
    case True
    have step: "run_step s f = ?s0\<lparr>centroid_data := centroid_data s @ [(format_time (clock_ms f - start_time s), fst (centroid b), snd (centroid b))],
       positions := positions s @ [centroid b],
       no_movement_frames := n + 1\<rparr>"
      unfolding run_step_def using process_frame_hold[of f ?s0 b] none Cons.prems True by simp
    have ih: "positions (feed (run_step s f) gap) = positions (run_step s f) @ replicate (min (length gap) (nat (m + 1 - (n+1)))) (centroid b)
     \<and> map snd (centroid_data (feed (run_step s f) gap)) = map snd (centroid_data (run_step s f)) @ replicate (min (length gap) (nat (m + 1 - (n+1)))) (centroid b)
     \<and> no_movement_frames (feed (run_step s f) gap) = (n+1) + int (min (length gap) (nat (m + 1 - (n+1))))
     \<and> last_bbox (feed (run_step s f) gap) = Some b
     \<and> max_no_movement_frames (feed (run_step s f) gap) = m
     \<and> start_time (feed (run_step s f) gap) = start_time (run_step s f)"
      by (rule Cons.IH[OF rest]) (use step Cons.prems True in simp_all)
    have k: "min (Suc (length gap)) (nat (m + 1 - n)) = Suc (min (length gap) (nat (m + 1 - (n + 1))))"
      using True by (simp add: min_def nat_diff_distrib) linarith
    show ?thesis using ih step k by (simp add: replicate_append_same)
  next
    case False
    then have z: "nat (m + 1 - n) = 0" by simp
    have step: "run_step s f = ?s0"
      unfolding run_step_def using process_frame_silent[of f ?s0] none Cons.prems False by simp
    have ih: "positions (feed ?s0 gap) = positions ?s0 @ replicate (min (length gap) (nat (m + 1 - n))) (centroid b)
     \<and> map snd (centroid_data (feed ?s0 gap)) = map snd (centroid_data ?s0) @ replicate (min (length gap) (nat (m + 1 - n))) (centroid b)
     \<and> no_movement_frames (feed ?s0 gap) = n + int (min (length gap) (nat (m + 1 - n)))
     \<and> last_bbox (feed ?s0 gap) = Some b
     \<and> max_no_movement_frames (feed ?s0 gap) = m
     \<and> start_time (feed ?s0 gap) = start_time ?s0"
      by (rule Cons.IH[OF rest]) (use Cons.prems in simp_all)
    show ?thesis using ih step z by simp
  qed
qed

lemma feed_append: "feed s (fs @ gs) = feed (feed s fs) gs"
  by (induction fs arbitrary: s) simp_all

lemma run_step_detect:
  assumes "first_region (contours f) = Some b"
  shows "run_step s f =
     s\<lparr>valid_frame := Some f,
       centroid_data := centroid_data s @ [(format_time (clock_ms f - start_time s), fst (centroid b), snd (centroid b))],
       positions := positions s @ [centroid b],
       last_bbox := Some b, no_movement_frames := 0\<rparr>"
  unfolding run_step_def using process_frame_detect[OF assms, of "s\<lparr>valid_frame := Some f\<rparr>"] by simp


text \<open>
  Claim C3. A frame with a detection is followed by \<open>K\<close> frames without one, with
  \<open>1 \<le> K \<le> max_no_movement_frames\<close>. Then the gap adds exactly \<open>K\<close> points to the trail,
  each at the centroid of the box of the detection, the streak stands at \<open>K\<close>, and a
  detection in the next frame logs its own centroid and brings the streak back to 0.
\<close>

theorem occlusion_tolerance:
  assumes "first_region (contours d) = Some b"
    and "\<forall>f \<in> set gap. \<not> detected f"
    and "1 \<le> length gap" and "int (length gap) \<le> max_no_movement_frames s"
    and "first_region (contours d') = Some b'"
  shows "positions (feed s [d]) = positions s @ [centroid b]
    \<and> positions (feed s (d # gap)) = positions (feed s [d]) @ replicate (length gap) (centroid b)
    \<and> map snd (centroid_data (feed s (d # gap))) =
        map snd (centroid_data (feed s [d])) @ replicate (length gap) (centroid b)
    \<and> no_movement_frames (feed s (d # gap)) = int (length gap)
    \<and> positions (feed s (d # gap @ [d'])) = positions (feed s (d # gap)) @ [centroid b']
    \<and> no_movement_frames (feed s (d # gap @ [d'])) = 0"
proof -
  let ?s1 = "run_step s d"
  have s1: "last_bbox ?s1 = Some b" "no_movement_frames ?s1 = 0"
    "max_no_movement_frames ?s1 = max_no_movement_frames s" "positions ?s1 = positions s @ [centroid b]"
    by (simp_all add: run_step_detect[OF assms(1)])
  have k: "min (length gap) (nat (max_no_movement_frames s + 1 - 0)) = length gap"
    using assms(4) by simp
  note g = feed_gap[OF assms(2) s1(1) s1(2) s1(3), unfolded k]
  show ?thesis
    using g s1 by (simp add: feed_append run_step_detect[OF assms(5)])
qed

theorem occlusion_tolerance_witness:
  "positions (feed (init_tracker 0) [fish, empty_tank, empty_tank, fish]) = [(12, 23), (12, 23), (12, 23), (12, 23)]
   \<and> no_movement_frames (feed (init_tracker 0) [fish, empty_tank, empty_tank]) = 2
   \<and> no_movement_frames (feed (init_tracker 0) [fish, empty_tank, empty_tank, fish]) = 0"
proof -
  have 1: "first_region (contours fish) = Some (10, 20, 4, 6)" by (simp add: fish_def)
  have 2: "\<forall>f \<in> set [empty_tank, empty_tank]. \<not> detected f" by (simp add: detected_def empty_tank_def)
  have 3: "1 \<le> length [empty_tank, empty_tank]" by simp
  have 4: "int (length [empty_tank, empty_tank]) \<le> max_no_movement_frames (init_tracker 0)"
    by (simp add: init_tracker_def)
  from occlusion_tolerance[OF 1 2 3 4 1] show ?thesis
    by (simp add: centroid_def init_tracker_def)
qed

text \<open>
  Claim C1, as amended. A frame with a detection is followed by frames without one. The
  gap adds the centroid of the detected box once per frame until
  \<open>max_no_movement_frames + 1\<close> points have been added, and nothing for the frames after
  that: the guard of \<open>process_frame\<close> admits the streak values 0 up to and including the
  maximum, so one run of occlusion logs at most one point more than the maximum.
\<close>

theorem occlusion_budget:
  assumes "first_region (contours d) = Some b"
    and "\<forall>f \<in> set gap. \<not> detected f"
  shows "positions (feed s (d # gap)) =
      positions (feed s [d]) @ replicate (min (length gap) (nat (max_no_movement_frames s + 1))) (centroid b)
    \<and> map snd (centroid_data (feed s (d # gap))) =
      map snd (centroid_data (feed s [d])) @ replicate (min (length gap) (nat (max_no_movement_frames s + 1))) (centroid b)
    \<and> length (positions (feed s (d # gap))) \<le> length (positions (feed s [d])) + nat (max_no_movement_frames s + 1)"
proof -
  let ?s1 = "run_step s d"
  have s1: "last_bbox ?s1 = Some b" "no_movement_frames ?s1 = 0"
    "max_no_movement_frames ?s1 = max_no_movement_frames s"
    by (simp_all add: run_step_detect[OF assms(1)])
  note g = feed_gap[OF assms(2) s1(1) s1(2) s1(3)]
  show ?thesis using g by simp
qed

text \<open>
  Claim C1 as stated fails: with the maximum of 10 that the constructor sets, a detection
  followed by 11 frames without one logs 11 synthetic points, and 12 or 30 such frames log
  the same 11.
\<close>

theorem occlusion_budget_counterexample:
  "detected fish \<and> \<not> detected empty_tank \<and> max_no_movement_frames (init_tracker 0) = 10
   \<and> positions (feed (init_tracker 0) [fish]) = [(12, 23)]
   \<and> positions (feed (init_tracker 0) (fish # replicate 11 empty_tank)) = replicate 12 (12, 23)
   \<and> positions (feed (init_tracker 0) (fish # replicate 12 empty_tank)) = replicate 12 (12, 23)
   \<and> positions (feed (init_tracker 0) (fish # replicate 30 empty_tank)) = replicate 12 (12, 23)"
proof -
  have 1: "first_region (contours fish) = Some (10, 20, 4, 6)" by (simp add: fish_def)
  have e: "\<not> detected empty_tank" by (simp add: detected_def empty_tank_def)
  have 2: "\<forall>f \<in> set (replicate n empty_tank). \<not> detected f" for n using e by simp
  have m: "max_no_movement_frames (init_tracker 0) = 10" by (simp add: init_tracker_def)
  have p: "positions (feed (init_tracker 0) [fish]) = [(12, 23)]"
    by (simp add: run_step_detect[OF 1] centroid_def init_tracker_def)
  have g: "positions (feed (init_tracker 0) (fish # replicate n empty_tank)) =
      [(12, 23)] @ replicate (min n 11) (12, 23)" for n
    using feed_gap[OF 2, of "run_step (init_tracker 0) fish" "(10, 20, 4, 6)" 0 10 n]
    by (simp add: run_step_detect[OF 1] centroid_def init_tracker_def)
  have r: "replicate 12 (12::int, 23::int) = [(12, 23)] @ replicate 11 (12, 23)"
    by (simp add: eval_nat_numeral)
  show ?thesis using 1 e m p g[of 11] g[of 12] g[of 30] r by (simp add: detected_def)
qed


lemma feed_streak_nonneg: "0 \<le> no_movement_frames s \<Longrightarrow> 0 \<le> no_movement_frames (feed s fs)"
proof (induction fs arbitrary: s)
  case Nil
  then show ?case by simp
next
  case (Cons f fs)
  have "0 \<le> no_movement_frames (run_step s f)"
  proof (cases "first_region (contours f)")
    case None
    show ?thesis
    proof (cases "last_bbox s = None \<or> \<not> no_movement_frames s \<le> max_no_movement_frames s")
      case True
      then show ?thesis
        unfolding run_step_def using process_frame_silent[OF None, of "s\<lparr>valid_frame := Some f\<rparr>"] Cons.prems
        by simp
    next
      case False
      then obtain b where "last_bbox s = Some b" "no_movement_frames s \<le> max_no_movement_frames s"
        by auto
      then show ?thesis
        unfolding run_step_def using process_frame_hold[OF None, of "s\<lparr>valid_frame := Some f\<rparr>" b] Cons.prems
        by simp
    qed
  next
    case (Some b)
    then show ?thesis by (simp add: run_step_detect)
  qed
  then show ?case using Cons.IH by simp
qed

text \<open>
  Claim C4. In one call of \<open>process_frame\<close>: a detection sets the streak to 0; a frame that
  logs a synthetic point adds one to the streak, and the point is the centroid of
  \<open>last_bbox\<close>; without a detection the streak changes only when a synthetic point is
  logged; a frame with neither leaves the whole state as it was; a streak that is not
  negative stays so, and it is not negative in any state a new tracker reaches.
\<close>

theorem streak_invariant:
  "(detected f \<longrightarrow> no_movement_frames (process_frame s f) = 0) \<and>
   (synthesized s f \<longrightarrow>
      no_movement_frames (process_frame s f) = no_movement_frames s + 1 \<and>
      (\<exists>b. last_bbox s = Some b \<and> positions (process_frame s f) = positions s @ [centroid b])) \<and>
   (\<not> detected f \<and> no_movement_frames (process_frame s f) \<noteq> no_movement_frames s \<longrightarrow>
      synthesized s f) \<and>
   (\<not> detected f \<and> \<not> synthesized s f \<longrightarrow> process_frame s f = s) \<and>
   (0 \<le> no_movement_frames s \<longrightarrow> 0 \<le> no_movement_frames (process_frame s f)) \<and>
   0 \<le> no_movement_frames (feed (init_tracker now) fs)"
proof -
  have reach: "0 \<le> no_movement_frames (feed (init_tracker now) fs)"
    by (rule feed_streak_nonneg) (simp add: init_tracker_def)
  show ?thesis
  proof (cases "first_region (contours f)")
    case None
    show ?thesis
    proof (cases "last_bbox s = None \<or> \<not> no_movement_frames s \<le> max_no_movement_frames s")
      case True
      from process_frame_silent[OF None True] None reach show ?thesis
        by (simp add: detected_def synthesized_def)
    next
      case False
      then obtain b where b: "last_bbox s = Some b"
        and le: "no_movement_frames s \<le> max_no_movement_frames s"
        by auto
      from process_frame_hold[OF None b le] None b reach show ?thesis
        by (simp add: detected_def synthesized_def)
    qed
  next
    case (Some b)
    from process_frame_detect[OF Some] Some reach show ?thesis
      by (simp add: detected_def synthesized_def)
  qed
qed

theorem streak_invariant_witness:
  "detected fish \<and> no_movement_frames (process_frame (feed (init_tracker 0) [fish, empty_tank]) fish) = 0
   \<and> synthesized (feed (init_tracker 0) [fish]) empty_tank
   \<and> no_movement_frames (process_frame (feed (init_tracker 0) [fish]) empty_tank) =
      no_movement_frames (feed (init_tracker 0) [fish]) + 1
   \<and> \<not> detected empty_tank \<and> \<not> synthesized (init_tracker 0) empty_tank
   \<and> process_frame (init_tracker 0) empty_tank = init_tracker 0
   \<and> 0 \<le> no_movement_frames (feed (init_tracker 0) [fish, empty_tank, empty_tank])"
proof -
  have 1: "first_region (contours fish) = Some (10, 20, 4, 6)" by (simp add: fish_def)
  have 2: "first_region (contours empty_tank) = None" by (simp add: empty_tank_def)
  have d: "detected fish" "\<not> detected empty_tank" using 1 2 by (simp_all add: detected_def)
  define s1 where "s1 = feed (init_tracker 0) [fish]"
  have s1: "last_bbox s1 = Some (10, 20, 4, 6)"
    "no_movement_frames s1 \<le> max_no_movement_frames s1"
    by (simp_all add: s1_def run_step_detect[OF 1] init_tracker_def)
  have "synthesized s1 empty_tank"
    unfolding synthesized_def using d(2) by (simp add: process_frame_hold[OF 2 s1])
  then have syn: "synthesized (feed (init_tracker 0) [fish]) empty_tank"
    by (simp only: s1_def)
  have "process_frame (init_tracker 0) empty_tank = init_tracker 0"
    by (rule process_frame_silent[OF 2]) (simp add: init_tracker_def)
  then have cold: "\<not> synthesized (init_tracker 0) empty_tank"
    unfolding synthesized_def by simp
  let ?s1 = "feed (init_tracker 0) [fish]"
  have a: "no_movement_frames (process_frame (feed (init_tracker 0) [fish, empty_tank]) fish) = 0"
    using streak_invariant[of fish "feed (init_tracker 0) [fish, empty_tank]" 0 "[]"] d(1) by blast
  have b: "no_movement_frames (process_frame ?s1 empty_tank) = no_movement_frames ?s1 + 1"
    using streak_invariant[of empty_tank ?s1 0 "[]"] syn by blast
  have c: "process_frame (init_tracker 0) empty_tank = init_tracker 0"
    using streak_invariant[of empty_tank "init_tracker 0" 0 "[]"] d(2) cold by blast
  have e: "0 \<le> no_movement_frames (feed (init_tracker 0) [fish, empty_tank, empty_tank])"
    using streak_invariant[of fish "init_tracker 0" 0 "[fish, empty_tank, empty_tank]"] by blast
  show ?thesis using d syn cold a b c e by blast
qed

theorem occlusion_budget_witness:
  "positions (feed (init_tracker 0) (fish # replicate 12 empty_tank)) =
     positions (feed (init_tracker 0) [fish]) @ replicate 11 (12, 23)
   \<and> length (positions (feed (init_tracker 0) (fish # replicate 12 empty_tank)))
      \<le> length (positions (feed (init_tracker 0) [fish])) + 11"
proof -
  have 1: "first_region (contours fish) = Some (10, 20, 4, 6)" by (simp add: fish_def)
  have 2: "\<forall>f \<in> set (replicate 12 empty_tank). \<not> detected f"
    by (simp add: detected_def empty_tank_def)
  have m: "nat (max_no_movement_frames (init_tracker 0) + 1) = 11" by (simp add: init_tracker_def)
  from occlusion_budget[OF 1 2, of "init_tracker 0"] show ?thesis
    unfolding m by (simp add: centroid_def)
qed

section \<open>Properties of paths\<close>

lemma rfind_append:
  "rfind c (xs @ ys) = (if c \<in> set ys then int (length xs) + rfind c ys else rfind c xs)"
proof (cases "c \<in> set ys")
  case True
  then have "takeWhile (\<lambda>x. x \<noteq> c) (rev ys @ rev xs) = takeWhile (\<lambda>x. x \<noteq> c) (rev ys)"
    by (intro takeWhile_append1[of c]) auto
  with True show ?thesis by (simp add: rfind_def)
next
  case False
  then have "takeWhile (\<lambda>x. x \<noteq> c) (rev ys @ rev xs) = rev ys @ takeWhile (\<lambda>x. x \<noteq> c) (rev xs)"
    by (intro takeWhile_append2) auto
  with False show ?thesis by (simp add: rfind_def)
qed

lemma rfind_bounds: "- 1 \<le> rfind c p \<and> rfind c p < int (length p)"
proof (cases "c \<in> set p")
  case True
  then have "dropWhile (\<lambda>x. x \<noteq> c) (rev p) \<noteq> []"
    by (simp add: dropWhile_eq_Nil_conv)
  moreover have "length (takeWhile (\<lambda>x. x \<noteq> c) (rev p)) + length (dropWhile (\<lambda>x. x \<noteq> c) (rev p)) = length p"
    by (metis length_append length_rev takeWhile_dropWhile_id)
  ultimately have "length (takeWhile (\<lambda>x. x \<noteq> c) (rev p)) < length p"
    by (cases "dropWhile (\<lambda>x. x \<noteq> c) (rev p)") auto
  then show ?thesis using True by (simp add: rfind_def)
next
  case False
  then show ?thesis by (simp add: rfind_def)
qed

lemma rfind_member: "c \<in> set p \<Longrightarrow> 0 \<le> rfind c p"
  using rfind_bounds[of c p]
proof -
  assume m: "c \<in> set p"
  then have "dropWhile (\<lambda>x. x \<noteq> c) (rev p) \<noteq> []"
    by (simp add: dropWhile_eq_Nil_conv)
  moreover have "length (takeWhile (\<lambda>x. x \<noteq> c) (rev p)) + length (dropWhile (\<lambda>x. x \<noteq> c) (rev p)) = length p"
    by (metis length_append length_rev takeWhile_dropWhile_id)
  ultimately have "length (takeWhile (\<lambda>x. x \<noteq> c) (rev p)) < length p"
    by (cases "dropWhile (\<lambda>x. x \<noteq> c) (rev p)") auto
  then show ?thesis using m by (simp add: rfind_def)
qed

lemma rfind_last: "p \<noteq> [] \<Longrightarrow> last p = c \<Longrightarrow> rfind c p = int (length p) - 1"
  by (cases p rule: rev_cases) (simp_all add: rfind_def)

lemma basename_join: "basename (join a b) = basename b"
proof -
  have app: "basename (xs @ b) = basename b" if "CHR ''/'' \<in> set b" for xs
  proof -
    have "nat (int (length xs) + rfind (CHR ''/'') b + 1) = length xs + nat (rfind (CHR ''/'') b + 1)"
      using rfind_member[OF that] by linarith
    then show ?thesis using that by (simp add: basename_def rfind_append)
  qed
  have nos: "basename b = b" if "CHR ''/'' \<notin> set b"
    using that by (simp add: basename_def rfind_def)
  show ?thesis
  proof (cases "CHR ''/'' \<in> set b")
    case True
    then show ?thesis using app[of a] app[of "a @ ''/''"] by (auto simp add: join_def)
  next
    case False
    have r1: "rfind (CHR ''/'') (a @ ''/'') = int (length a)"
      by (simp add: rfind_def)
    have "rfind (CHR ''/'') ((a @ ''/'') @ b) = rfind (CHR ''/'') (a @ ''/'')"
      using False by (simp only: rfind_append if_False)
    then have r2: "rfind (CHR ''/'') (a @ ''/'' @ b) = int (length a)"
      using r1 by simp
    have 1: "basename (a @ ''/'' @ b) = b"
      unfolding basename_def r2 by (simp add: nat_add_distrib)
    have 2: "basename (a @ b) = b" if "a \<noteq> []" "last a = CHR ''/''"
      using False that rfind_last[OF that] by (simp add: basename_def rfind_append)
    from False have 3: "\<not> (b \<noteq> [] \<and> hd b = CHR ''/'')" by (cases b) auto
    show ?thesis
    proof (cases "a = []")
      case True
      then show ?thesis using 3 nos[OF False] by (simp add: join_def)
    next
      case na: False
      show ?thesis
      proof (cases "last a = CHR ''/''")
        case True
        then show ?thesis using 2[OF na True] 3 na nos[OF False] by (simp add: join_def)
      next
        case False
        then show ?thesis using 1 3 na nos[OF \<open>CHR ''/'' \<notin> set b\<close>] by (simp add: join_def)
      qed
    qed
  qed
qed

section \<open>Properties of one job\<close>

lemma process_video_returns:
  "\<exists>m. snd (process_video env video_path output_dir) = Inr m"
  by (cases "process_video_try env video_path output_dir")
     (auto simp add: process_video_def split: sum.splits)

lemma process_video_failed:
  assumes "snd (process_video_try env video_path output_dir) = Inl e"
  shows "snd (process_video env video_path output_dir) = Inr (Failed (basename video_path) (snd e))"
  using assms
  by (cases "process_video_try env video_path output_dir")
     (auto simp add: process_video_def get_resource_path_def basename_join split: sum.splits)

lemma job_line_completed:
  "\<exists>m. snd (process_video (job w video) video out) = Inr m \<and> job_line w out video = Completed (basename video) m"
  using process_video_returns[of "job w video" video out]
  by (auto simp add: job_line_def)

lemma no_frame_state:
  assumes "\<not> cap_opened env \<or> reads env = []"
  shows "run env (init_tracker t) = Inr (init_tracker t)"
  using assms by (auto simp add: run_def)

text \<open>
  Claim C2, evaluated on the code. When the constructor succeeds and the capture does not
  open, or opens and yields no frame, \<open>save_results\<close> returns without writing and
  \<open>process_video\<close> returns its success message: no file is written and no failure
  reaches the caller.
\<close>

theorem no_frame_reports_success:
  assumes "makedirs_error env = None" and "\<not> cap_opened env \<or> reads env = []"
  shows "process_video env video_path output_dir = ([], Inr (Success (basename video_path)))"
  using assms no_frame_state[OF assms(2)]
  by (simp add: process_video_def process_video_try_def construct_def save_results_def
      init_tracker_def get_resource_path_def basename_join)

theorem no_frame_reports_success_witness:
  "process_video unopened_job ''videos/missing.mp4'' ''out'' = ([], Inr (Success ''missing.mp4''))
   \<and> process_video frameless_job ''videos/empty.mp4'' ''out'' = ([], Inr (Success ''empty.mp4''))"
proof -
  have 1: "makedirs_error unopened_job = None" "\<not> cap_opened unopened_job \<or> reads unopened_job = []"
    by (simp_all add: unopened_job_def quiet_job_def)
  have 2: "makedirs_error frameless_job = None" "\<not> cap_opened frameless_job \<or> reads frameless_job = []"
    by (simp_all add: frameless_job_def quiet_job_def)
  have b: "basename ''videos/missing.mp4'' = ''missing.mp4''" "basename ''videos/empty.mp4'' = ''empty.mp4''"
    by (simp_all add: basename_def rfind_def)
  from no_frame_reports_success[OF 1, of "''videos/missing.mp4''" "''out''"]
    no_frame_reports_success[OF 2, of "''videos/empty.mp4''" "''out''"] b
  show ?thesis by simp
qed

section \<open>Properties of a batch run\<close>

lemma batches_step: "0 < n \<Longrightarrow> xs \<noteq> [] \<Longrightarrow> batches n xs = take n xs # batches n (drop n xs)"
  by (subst batches.simps) simp

lemma batches_Nil: "batches n [] = []"
  by (subst batches.simps) simp

lemma concat_batches: "0 < n \<Longrightarrow> concat (batches n xs) = xs"
proof (induction n xs rule: batches.induct)
  case (1 n xs)
  show ?case
  proof (cases "xs = []")
    case True
    then show ?thesis by (simp add: batches_Nil)
  next
    case False
    with 1 show ?thesis by (simp add: batches_step)
  qed
qed

lemma job_lines_map:
  "job_lines (map (job_line w out) vs) = map (job_line w out) vs"
proof (induction vs)
  case Nil
  then show ?case by (simp add: job_lines_def)
next
  case (Cons v vs)
  obtain m where "job_line w out v = Completed (basename v) m"
    using job_line_completed[of w v out] by blast
  with Cons show ?case by (simp add: job_lines_def)
qed

lemma job_lines_append: "job_lines (xs @ ys) = job_lines xs @ job_lines ys"
  by (simp add: job_lines_def)

lemma job_lines_run_batch:
  "job_lines (run_batch w out b) = map (job_line w out) (as_completed w b)"
proof -
  have c: "job_lines (l # ls) = (case l of Completed n m \<Rightarrow> l # job_lines ls
      | Error_with n t \<Rightarrow> l # job_lines ls | _ \<Rightarrow> job_lines ls)" for l ls
    by (cases l) (simp_all add: job_lines_def)
  have e: "job_lines [] = []" by (simp add: job_lines_def)
  have "run_batch w out b = Starting_batch (map basename b) #
      (map (job_line w out) (as_completed w b) @ [Finished_batch (map basename b)])"
    by (simp add: run_batch_def Let_def)
  then show ?thesis
    by (simp add: c e job_lines_append job_lines_map)
qed

lemma mset_job_lines_batches:
  assumes "\<forall>b. mset (as_completed w b) = mset b"
  shows "mset (job_lines (concat (map (run_batch w out) bs))) =
         image_mset (job_line w out) (mset (concat bs))"
proof (induction bs)
  case Nil
  then show ?case by (simp add: job_lines_def)
next
  case (Cons b bs)
  have "mset (map (job_line w out) (as_completed w b)) = image_mset (job_line w out) (mset b)"
    using assms by simp
  with Cons show ?case
    by (simp add: job_lines_append job_lines_run_batch)
qed


lemma job_line_not_error: "job_line w out v \<noteq> Error_with name detail"
  using job_line_completed[of w v out] by auto

lemma run_batch_no_error: "Error_with name detail \<notin> set (run_batch w out b)"
proof -
  have s: "set (run_batch w out b) =
      {Starting_batch (map basename b), Finished_batch (map basename b)}
      \<union> job_line w out ` set (as_completed w b)"
    by (auto simp add: run_batch_def Let_def)
  show ?thesis
  proof
    assume "Error_with name detail \<in> set (run_batch w out b)"
    then have "Error_with name detail \<in> job_line w out ` set (as_completed w b)"
      unfolding s by simp
    then obtain v where "job_line w out v = Error_with name detail"
      by (auto simp add: image_iff)
    then show False using job_line_not_error by blast
  qed
qed

lemma last_run_batches:
  assumes "bs \<noteq> []"
  shows "\<exists>names. last (concat (map (run_batch w out) bs)) = Finished_batch names"
proof -
  obtain cs c where bs: "bs = cs @ [c]"
    using assms by (cases bs rule: rev_cases) auto
  have "run_batch w out c = (Starting_batch (map basename c) # map (job_line w out) (as_completed w c))
      @ [Finished_batch (map basename c)]"
    by (simp add: run_batch_def Let_def)
  then have "last (concat (map (run_batch w out) bs)) = Finished_batch (map basename c)"
    unfolding bs by (simp del: append_Cons)
  then show ?thesis by blast
qed

lemma batches_nonempty: "0 < n \<Longrightarrow> xs \<noteq> [] \<Longrightarrow> batches n xs \<noteq> []"
  by (simp add: batches_step)


lemma run_tracking_log:
  assumes "run_tracking w folder out = Inr logged"
  shows "logged = concat (map (run_batch w out) (batches BATCH_SIZE (video_files w folder)))"
proof (cases "\<not> isdir w folder \<or> \<not> isdir w out \<or> video_files w folder = []")
  case True
  then have "run_tracking w folder out = Inl 1"
    unfolding run_tracking_def by auto
  with assms show ?thesis by simp
next
  case False
  then have "run_tracking w folder out =
      Inr (concat (map (run_batch w out) (batches BATCH_SIZE (video_files w folder))))"
    unfolding run_tracking_def by simp
  with assms show ?thesis by simp
qed

lemma run_tracking_completes:
  assumes "isdir w folder" "isdir w out" "video_files w folder \<noteq> []"
    and "\<forall>b. mset (as_completed w b) = mset b"
  shows "\<exists>logged. run_tracking w folder out = Inr logged
      \<and> mset (job_lines logged) = image_mset (job_line w out) (mset (video_files w folder))
      \<and> (\<exists>names. last logged = Finished_batch names)"
proof -
  let ?bs = "batches BATCH_SIZE (video_files w folder)"
  let ?logged = "concat (map (run_batch w out) ?bs)"
  have r: "run_tracking w folder out = Inr ?logged"
    unfolding run_tracking_def using assms(1-3) by simp
  have c: "concat ?bs = video_files w folder"
    by (rule concat_batches) (simp add: BATCH_SIZE_def)
  have n: "?bs \<noteq> []"
    by (rule batches_nonempty) (simp_all add: BATCH_SIZE_def assms)
  have m: "mset (job_lines ?logged) = image_mset (job_line w out) (mset (video_files w folder))"
    using mset_job_lines_batches[OF assms(4), of out ?bs] unfolding c .
  have l: "\<exists>names. last ?logged = Finished_batch names"
    by (rule last_run_batches[OF n])
  show ?thesis using r m l by blast
qed

lemma small_world_videos: "video_files small_world ''in'' = [''in/a.mp4'', ''in/b.avi'', ''in/c.MOV'']"
  by (simp add: video_files_def small_world_def is_video_def lower_def lower_char_def
      endswith_def join_def)

lemma faulty_job_raises:
  "snd (process_video_try faulty_job v out) = Inl (CvError, ''bad frame'')"
  by (simp add: process_video_try_def construct_def run_def faulty_job_def quiet_job_def)

lemma job_lines_subset: "set (job_lines logged) \<subseteq> set logged"
  by (simp add: job_lines_def)

lemma run_tracking_lines:
  assumes "isdir w folder" "isdir w out" "video_files w folder \<noteq> []"
    and "\<forall>b. mset (as_completed w b) = mset b"
  shows "\<exists>logged. run_tracking w folder out = Inr logged
      \<and> mset (job_lines logged) = image_mset (job_line w out) (mset (video_files w folder))
      \<and> (\<forall>v \<in> set (video_files w folder). job_line w out v \<in> set logged)
      \<and> (\<exists>names. last logged = Finished_batch names)"
proof -
  from run_tracking_completes[OF assms]
  obtain logged where r: "run_tracking w folder out = Inr logged"
    and m: "mset (job_lines logged) = image_mset (job_line w out) (mset (video_files w folder))"
    and l: "\<exists>names. last logged = Finished_batch names"
    by blast
  have "job_line w out v \<in> set logged" if "v \<in> set (video_files w folder)" for v
  proof -
    from that have "job_line w out v \<in># image_mset (job_line w out) (mset (video_files w folder))"
      by simp
    then have "job_line w out v \<in> set (job_lines logged)"
      unfolding m[symmetric] by simp
    then show ?thesis using job_lines_subset by blast
  qed
  with r m l show ?thesis by blast
qed

text \<open>
  Claim C10. \<open>process_video\<close> returns a message for every input and never raises: an
  exception of its \<open>try\<close> block comes back as the failure message with the video's base
  name and the exception's text. So the line the orchestrator writes for a job is always a
  completion line, and no log of a run holds a line of the \<open>except\<close> branch around
  \<open>future.result()\<close>. In a run over existing folders with at least one video, whatever
  order the jobs complete in, the log holds the completion line of every discovered video,
  and for a video whose job failed that line carries the failure message.
\<close>

theorem process_video_total:
  "(\<exists>m. snd (process_video env video out) = Inr m)
   \<and> (\<forall>e. snd (process_video_try env video out) = Inl e \<longrightarrow>
          snd (process_video env video out) = Inr (Failed (basename video) (snd e)))
   \<and> (\<exists>m. job_line w out video = Completed (basename video) m)
   \<and> (\<forall>e. snd (process_video_try (job w video) video out) = Inl e \<longrightarrow>
          job_line w out video = Completed (basename video) (Failed (basename video) (snd e)))
   \<and> (\<forall>logged name detail. run_tracking w folder out = Inr logged \<longrightarrow>
          Error_with name detail \<notin> set logged)
   \<and> (isdir w folder \<and> isdir w out \<and> video_files w folder \<noteq> []
        \<and> (\<forall>b. mset (as_completed w b) = mset b) \<longrightarrow>
        (\<exists>logged. run_tracking w folder out = Inr logged
           \<and> mset (job_lines logged) = image_mset (job_line w out) (mset (video_files w folder))
           \<and> (\<forall>v \<in> set (video_files w folder).
                 \<exists>m. snd (process_video (job w v) v out) = Inr m
                      \<and> Completed (basename v) m \<in> set logged)
           \<and> (\<forall>v \<in> set (video_files w folder).
                 \<forall>e. snd (process_video_try (job w v) v out) = Inl e \<longrightarrow>
                   Completed (basename v) (Failed (basename v) (snd e)) \<in> set logged)))"
proof -
  have 1: "\<exists>m. snd (process_video env video out) = Inr m"
    by (rule process_video_returns)
  have 2: "\<forall>e. snd (process_video_try env video out) = Inl e \<longrightarrow>
          snd (process_video env video out) = Inr (Failed (basename video) (snd e))"
    using process_video_failed by blast
  have 3: "\<exists>m. job_line w out video = Completed (basename video) m"
    using job_line_completed[of w video out] by blast
  have f: "job_line w out v = Completed (basename v) (Failed (basename v) (snd e))"
    if "snd (process_video_try (job w v) v out) = Inl e" for e v
    using process_video_failed[OF that] by (simp add: job_line_def)
  then have 4: "\<forall>e. snd (process_video_try (job w video) video out) = Inl e \<longrightarrow>
          job_line w out video = Completed (basename video) (Failed (basename video) (snd e))"
    by blast
  have 5: "\<forall>logged name detail. run_tracking w folder out = Inr logged \<longrightarrow>
          Error_with name detail \<notin> set logged"
  proof (intro allI impI)
    fix logged name detail
    assume r: "run_tracking w folder out = Inr logged"
    show "Error_with name detail \<notin> set logged"
    proof
      assume a: "Error_with name detail \<in> set logged"
      have "logged = concat (map (run_batch w out) (batches BATCH_SIZE (video_files w folder)))"
        using r by (rule run_tracking_log)
      with a obtain b where "Error_with name detail \<in> set (run_batch w out b)"
        by auto
      then show False using run_batch_no_error by blast
    qed
  qed
  have 6: "\<exists>logged. run_tracking w folder out = Inr logged
           \<and> mset (job_lines logged) = image_mset (job_line w out) (mset (video_files w folder))
           \<and> (\<forall>v \<in> set (video_files w folder).
                 \<exists>m. snd (process_video (job w v) v out) = Inr m
                      \<and> Completed (basename v) m \<in> set logged)
           \<and> (\<forall>v \<in> set (video_files w folder).
                 \<forall>e. snd (process_video_try (job w v) v out) = Inl e \<longrightarrow>
                   Completed (basename v) (Failed (basename v) (snd e)) \<in> set logged)"
    if h: "isdir w folder \<and> isdir w out \<and> video_files w folder \<noteq> []
        \<and> (\<forall>b. mset (as_completed w b) = mset b)"
  proof -
    from h have "isdir w folder" "isdir w out" "video_files w folder \<noteq> []"
      "\<forall>b. mset (as_completed w b) = mset b"
      by blast+
    from run_tracking_lines[OF this]
    obtain logged where r: "run_tracking w folder out = Inr logged"
      and m: "mset (job_lines logged) = image_mset (job_line w out) (mset (video_files w folder))"
      and l: "\<forall>v \<in> set (video_files w folder). job_line w out v \<in> set logged"
      by blast
    have a: "\<exists>m. snd (process_video (job w v) v out) = Inr m \<and> Completed (basename v) m \<in> set logged"
      if "v \<in> set (video_files w folder)" for v
      using job_line_completed[of w v out] l that by metis
    have b: "Completed (basename v) (Failed (basename v) (snd e)) \<in> set logged"
      if "v \<in> set (video_files w folder)" "snd (process_video_try (job w v) v out) = Inl e" for v e
      using f[OF that(2)] l that(1) by metis
    from r m a b show ?thesis by blast
  qed
  from 1 2 3 4 5 6 show ?thesis by (intro conjI impI)
qed

theorem process_video_total_witness:
  "snd (process_video faulty_job ''in/b.avi'' ''out'') = Inr (Failed ''b.avi'' ''bad frame'')
   \<and> job_line small_world ''out'' ''in/b.avi'' = Completed ''b.avi'' (Failed ''b.avi'' ''bad frame'')
   \<and> (\<exists>logged. run_tracking small_world ''in'' ''out'' = Inr logged
         \<and> Completed ''b.avi'' (Failed ''b.avi'' ''bad frame'') \<in> set logged
         \<and> Error_with ''b.avi'' ''bad frame'' \<notin> set logged)"
proof -
  note t = process_video_total[of faulty_job "''in/b.avi''" "''out''" small_world "''in''"]
  have j: "job small_world ''in/b.avi'' = faulty_job" by (simp add: small_world_def)
  have b: "basename ''in/b.avi'' = ''b.avi''" by (simp add: basename_def rfind_def)
  have f: "snd (process_video_try faulty_job ''in/b.avi'' ''out'') = Inl (CvError, ''bad frame'')"
    by (rule faulty_job_raises)
  have "snd (process_video faulty_job ''in/b.avi'' ''out'') =
      Inr (Failed (basename ''in/b.avi'') (snd (CvError, ''bad frame'')))"
    using t f by blast
  then have 1: "snd (process_video faulty_job ''in/b.avi'' ''out'') = Inr (Failed ''b.avi'' ''bad frame'')"
    unfolding b by simp
  have "job_line small_world ''out'' ''in/b.avi'' =
      Completed (basename ''in/b.avi'') (Failed (basename ''in/b.avi'') (snd (CvError, ''bad frame'')))"
    using t f unfolding j by blast
  then have 2: "job_line small_world ''out'' ''in/b.avi'' = Completed ''b.avi'' (Failed ''b.avi'' ''bad frame'')"
    unfolding b by simp
  have h: "isdir small_world ''in'' \<and> isdir small_world ''out''
      \<and> video_files small_world ''in'' \<noteq> []
      \<and> (\<forall>b. mset (as_completed small_world b) = mset b)"
    by (simp add: small_world_videos) (simp add: small_world_def)
  have v: "''in/b.avi'' \<in> set (video_files small_world ''in'')"
    by (simp add: small_world_videos)
  from t h obtain logged where r: "run_tracking small_world ''in'' ''out'' = Inr logged"
    and l: "\<forall>v \<in> set (video_files small_world ''in'').
                 \<forall>e. snd (process_video_try (job small_world v) v ''out'') = Inl e \<longrightarrow>
                   Completed (basename v) (Failed (basename v) (snd e)) \<in> set logged"
    by blast
  have "Completed (basename ''in/b.avi'') (Failed (basename ''in/b.avi'') (snd (CvError, ''bad frame'')))
      \<in> set logged"
    using l v f unfolding j[symmetric] by blast
  then have 3: "Completed ''b.avi'' (Failed ''b.avi'' ''bad frame'') \<in> set logged"
    unfolding b by simp
  have 4: "Error_with ''b.avi'' ''bad frame'' \<notin> set logged"
    using t r by blast
  show ?thesis using 1 2 3 4 r by blast
qed

lemma valid_frame_process_frame: "valid_frame (process_frame s f) = valid_frame s"
proof (cases "first_region (contours f)")
  case None
  show ?thesis
  proof (cases "last_bbox s = None \<or> \<not> no_movement_frames s \<le> max_no_movement_frames s")
    case True
    then show ?thesis using process_frame_silent[OF None] by simp
  next
    case False
    then obtain b where "last_bbox s = Some b" "no_movement_frames s \<le> max_no_movement_frames s"
      by auto
    then show ?thesis using process_frame_hold[OF None] by simp
  qed
next
  case (Some b)
  then show ?thesis using process_frame_detect[OF Some] by simp
qed

lemma valid_frame_feed: "fs \<noteq> [] \<Longrightarrow> valid_frame (feed s fs) = Some (last fs)"
proof (induction fs arbitrary: s)
  case Nil
  then show ?case by simp
next
  case (Cons f fs)
  then show ?case
    by (cases "fs = []") (simp_all add: run_step_def valid_frame_process_frame)
qed

lemma run_loop_frames: "run_loop s (map Inr fs) = Inr (feed s fs)"
  by (induction fs arbitrary: s) simp_all

lemma process_video_success:
  assumes "makedirs_error env = None" and "cap_opened env" and "reads env = map Inr fs"
    and "fs \<noteq> []" and "csv_error env = None" and "heatmap_error env = None"
  shows "snd (process_video env v out) = Inr (Success (basename v))"
proof -
  have r: "run env (init_tracker (clock0 env)) = Inr (feed (init_tracker (clock0 env)) fs)"
    using assms(2,3) by (simp add: run_def run_loop_frames)
  have v: "valid_frame (feed (init_tracker (clock0 env)) fs) = Some (last fs)"
    using assms(4) by (rule valid_frame_feed)
  show ?thesis
    using assms(1,5,6) r v
    by (simp add: process_video_def process_video_try_def construct_def save_results_def
        Let_def get_resource_path_def basename_join)
qed
















section \<open>Properties of the distance summarizer\<close>

lemma read_loop_one:
  "read_loop 1 (enumerate j (r # rs)) acc =
     (case read_row r of Inl e \<Rightarrow> Inl e
      | Inr None \<Rightarrow> read_loop 1 (enumerate (Suc j) rs) acc
      | Inr (Some p) \<Rightarrow> read_loop 1 (enumerate (Suc j) rs) (acc @ [p]))"
  by simp

lemma read_loop_kept:
  assumes "frame_skip \<noteq> 0"
  shows "read_loop frame_skip (enumerate k rows) acc =
     read_loop 1 (enumerate j (map snd (filter (\<lambda>(idx, row). frame_skip dvd int idx) (enumerate k rows)))) acc"
proof (induction rows arbitrary: k j acc)
  case Nil
  then show ?case by simp
next
  case (Cons r rows)
  show ?case
  proof (cases "frame_skip dvd int k")
    case True
    then have m: "int k mod frame_skip = 0" by (simp add: mod_eq_0_iff_dvd)
    show ?thesis
      using assms True m Cons.IH[of "Suc k" _ "Suc j"]
      by (simp split: sum.splits option.splits)
  next
    case False
    then have m: "int k mod frame_skip \<noteq> 0" by (simp add: mod_eq_0_iff_dvd)
    show ?thesis
      using assms False m Cons.IH[of "Suc k" acc j] by simp
  qed
qed

lemma every_nth_nth:
  "every_nth n rows = map (\<lambda>i. rows ! i) (filter (\<lambda>i. n dvd int i) [0..<length rows])"
proof -
  have e: "enumerate 0 rows = map (\<lambda>i. (i, rows ! i)) [0..<length rows]"
    by (rule nth_equalityI) (simp_all add: nth_enumerate_eq)
  show ?thesis
    unfolding every_nth_def e by (simp add: filter_map comp_def)
qed

lemma multiples_upto:
  assumes "0 < N"
  shows "filter (\<lambda>i. int N dvd int i) [0..<2 * N + 1] = [0, N, 2 * N]"
proof -
  have d: "(int N dvd int i) = (N dvd i)" for i by simp
  have s: "[0..<2 * N + 1] = [0] @ [1..<N] @ [N] @ [N + 1..<2 * N] @ [2 * N]"
  proof -
    have "[0..<2 * N + 1] = [0..<2 * N] @ [2 * N]" by simp
    also have "[0..<2 * N] = [0..<N] @ [N..<2 * N]"
      using upt_add_eq_append[of 0 N N] by (simp add: mult_2)
    also have "[0..<N] = [0] @ [1..<N]" using assms by (simp add: upt_conv_Cons)
    also have "[N..<2 * N] = [N] @ [N + 1..<2 * N]" using assms by (simp add: upt_conv_Cons)
    finally show ?thesis by simp
  qed
  have a: "filter (\<lambda>i. N dvd i) [1..<N] = []"
    by (auto simp add: filter_empty_conv dest: dvd_imp_le)
  have b: "filter (\<lambda>i. N dvd i) [N + 1..<2 * N] = []"
  proof -
    have "\<not> N dvd i" if "N < i" "i < 2 * N" for i
    proof
      assume "N dvd i"
      then obtain k where k: "i = N * k" by (auto simp: dvd_def)
      with that have "N * 1 < N * k" "N * k < N * 2" by simp_all
      then have "1 < k" "k < 2" using assms by simp_all
      then show False by simp
    qed
    then show ?thesis by (auto simp add: filter_empty_conv)
  qed
  show ?thesis unfolding d s using a b by simp
qed

text \<open>
  What the inner \<open>try\<close> does to a row, in the spec's words: a short row leaves the loop with
  \<open>TypeError\<close>, any other row gives its point when it is usable and is skipped when not.
\<close>

lemma read_row_short:
  "read_row row = (if short row then Inl (TypeError, ''int() argument'') else Inr (usable row))"
  by (cases "Centroid_X row"; cases "Centroid_Y row")
     (simp_all add: read_row_def short_def usable_def skipped_def)

lemma read_loop_all:
  "read_loop 1 (enumerate j rows) acc =
     (if list_ex short rows then Inl (TypeError, ''int() argument'')
      else Inr (acc @ usable_points rows))"
proof (induction rows arbitrary: j acc)
  case Nil
  then show ?case by (simp add: usable_points_def)
next
  case (Cons row rows)
  show ?case
  proof (cases "short row")
    case True
    then show ?thesis by (simp add: read_row_short)
  next
    case False
    then show ?thesis
      using Cons.IH[of "Suc j"]
      by (cases "usable row") (simp_all add: read_row_short usable_points_def)
  qed
qed

lemma read_points:
  assumes "frame_skip \<noteq> 0"
  shows "read_loop frame_skip (enumerate 0 rows) [] =
     (if list_ex short (every_nth frame_skip rows) then Inl (TypeError, ''int() argument'')
      else Inr (usable_points (every_nth frame_skip rows)))"
proof -
  have "read_loop frame_skip (enumerate 0 rows) [] =
      read_loop 1 (enumerate 0 (every_nth frame_skip rows)) []"
    unfolding every_nth_def by (rule read_loop_kept[OF assms])
  then show ?thesis by (simp add: read_loop_all)
qed

text \<open>The sum under \<open>sum\<close>, step by step along the trail.\<close>

lemma sum_terms_acc:
  "sum_terms terms acc = (case sum_terms terms 0 of Inl e \<Rightarrow> Inl e | Inr s \<Rightarrow> Inr (acc + s))"
proof (induction terms arbitrary: acc)
  case Nil
  then show ?case by simp
next
  case (Cons t terms)
  show ?case
  proof (cases t)
    case (Inl e)
    then show ?thesis by simp
  next
    case (Inr x)
    show ?thesis
      unfolding Inr sum_terms.simps
      by (subst Cons.IH[of "acc + x"], subst Cons.IH[of "0 + x"]) (simp split: sum.splits)
  qed
qed

lemma sqrt_terms_step:
  "map (sqrt_term (p # q # ps)) [1..<length (p # q # ps)] =
     sqrt_term [p, q] 1 # map (sqrt_term (q # ps)) [1..<length (q # ps)]"
proof -
  have "[1..<Suc (Suc (length ps))] = 1 # [Suc 1..<Suc (Suc (length ps))]"
    by (rule upt_conv_Cons) simp
  also have "[Suc 1..<Suc (Suc (length ps))] = map Suc [1..<Suc (length ps)]"
    by (simp only: map_Suc_upt)
  finally have u: "[1..<length (p # q # ps)] = 1 # map Suc [1..<length (q # ps)]"
    by (simp del: upt_Suc)
  have c: "sqrt_term (p # q # ps) (Suc i) = sqrt_term (q # ps) i" if "1 \<le> i" for i
  proof (cases i)
    case 0
    with that show ?thesis by simp
  next
    case (Suc k)
    then show ?thesis by (simp add: sqrt_term_def)
  qed
  have h: "sqrt_term (p # q # ps) 1 = sqrt_term [p, q] 1"
    by (simp add: sqrt_term_def)
  have "map (sqrt_term (p # q # ps) \<circ> Suc) [1..<length (q # ps)] =
      map (sqrt_term (q # ps)) [1..<length (q # ps)]"
    by (rule map_cong[OF refl]) (simp add: c del: upt_Suc)
  then show ?thesis
    unfolding u using h by (simp del: upt_Suc)
qed

lemma total_pixel_distance_step:
  "total_pixel_distance (p # q # ps) =
     (if float_overflows (squared_step p q)
      then Inl (OverflowError, ''int too large to convert to float'')
      else case total_pixel_distance (q # ps) of
             Inl e \<Rightarrow> Inl e
           | Inr s \<Rightarrow> Inr (euclid p q + s))"
proof -
  have t: "sqrt_term [p, q] 1 =
      (if float_overflows (squared_step p q)
       then Inl (OverflowError, ''int too large to convert to float'')
       else Inr (euclid p q))"
    by (simp add: sqrt_term_def squared_step_def euclid_def Let_def)
  show ?thesis
  proof (cases "float_overflows (squared_step p q)")
    case True
    then show ?thesis
      unfolding total_pixel_distance_def sqrt_terms_step t by simp
  next
    case False
    then show ?thesis
      unfolding total_pixel_distance_def sqrt_terms_step t
      by (simp add: sum_terms_acc[of _ "euclid p q"])
  qed
qed

lemma total_pixel_distance_short: "length ps < 2 \<Longrightarrow> total_pixel_distance ps = Inr 0"
proof (cases ps)
  case Nil
  then show ?thesis by (simp add: total_pixel_distance_def)
next
  case (Cons p qs)
  assume "length ps < 2"
  with Cons have "qs = []" by simp
  with Cons show ?thesis by (simp add: total_pixel_distance_def)
qed

text \<open>
  The sum is the length of the path when the trail fits, and \<open>OverflowError\<close> when it does
  not.
\<close>

lemma total_is_path_length:
  "total_pixel_distance ps =
     (if fits ps then Inr (path_length ps)
      else Inl (OverflowError, ''int too large to convert to float''))"
  by (induction ps rule: path_length.induct)
     (simp_all add: total_pixel_distance_step total_pixel_distance_short float_overflows_def)

lemma path_length_short: "length ps < 2 \<Longrightarrow> path_length ps = 0"
  by (cases ps rule: path_length.cases) simp_all

text \<open>
  The whole of \<open>calculate_total_distance\<close> for a video that opens, a table that is read and
  a step other than 0, in the spec's words.
\<close>

lemma distance_cases:
  assumes "video_size fs video_path = Some (frame_width, frame_height)"
    and "csv_rows fs csv_path = Inr rows"
    and "frame_skip \<noteq> 0"
  shows "calculate_total_distance fs csv_path video_path real_width_cm real_height_cm frame_skip =
     (if list_ex short (every_nth frame_skip rows) then Inr None
      else if length (usable_points (every_nth frame_skip rows)) < 2 then Inr (Some 0)
      else if \<not> fits (usable_points (every_nth frame_skip rows))
      then Inl (OverflowError, ''int too large to convert to float'')
      else if frame_width = 0 \<or> frame_height = 0 then Inl (ZeroDivisionError, ''division by zero'')
      else Inr (Some (path_length (usable_points (every_nth frame_skip rows))
                      * ((real_width_cm / real_of_int frame_width
                          + real_height_cm / real_of_int frame_height) / 2))))"
  using assms(1,2)
  by (simp add: calculate_total_distance_def read_points[OF assms(3)] total_is_path_length Let_def)

lemma distance_formula:
  assumes "video_size fs video_path = Some (frame_width, frame_height)"
    and "frame_width \<noteq> 0" and "frame_height \<noteq> 0"
    and "csv_rows fs csv_path = Inr rows"
    and "frame_skip \<noteq> 0"
    and "\<not> list_ex short (every_nth frame_skip rows)"
    and "fits (usable_points (every_nth frame_skip rows))"
  shows "calculate_total_distance fs csv_path video_path real_width_cm real_height_cm frame_skip =
     Inr (Some (path_length (usable_points (every_nth frame_skip rows))
                * ((real_width_cm / real_of_int frame_width
                    + real_height_cm / real_of_int frame_height) / 2)))"
  using assms(2,3,6,7)
  by (simp add: distance_cases[OF assms(1,4,5)] path_length_short)

lemma sqrt_25: "sqrt 25 = 5"
proof -
  have "sqrt 25 = sqrt (5\<^sup>2)" by simp
  also have "\<dots> = 5" by (simp only: real_sqrt_abs abs_numeral)
  finally show ?thesis .
qed

lemma small_fits: "squared_step p q < 10 ^ 300 \<Longrightarrow> fits [p, q] \<and> squared_step p q < 2 ^ 1024 - 2 ^ 970"
proof -
  have "(10::int) ^ 300 < 2 ^ 1024 - 2 ^ 970" by simp
  then show "squared_step p q < 10 ^ 300 \<Longrightarrow> fits [p, q] \<and> squared_step p q < 2 ^ 1024 - 2 ^ 970"
    by simp
qed

text \<open>
  Claim C5. For a step other than 0, the reading loop reads exactly the rows whose 0-based
  index is a multiple of the step, before any row is judged: it leaves with \<open>TypeError\<close>
  when one of these rows is short, and otherwise returns the usable points of these rows,
  in order. In a table of \<open>2 * N + 1\<close> rows read with step \<open>N\<close> these are the rows 0, \<open>N\<close>
  and \<open>2 * N\<close>, and when the three are usable the distance is computed from their three
  points alone.
\<close>

theorem downsampling:
  assumes "frame_skip \<noteq> 0"
  shows "read_loop frame_skip (enumerate 0 rows) [] =
           (if list_ex short (every_nth frame_skip rows) then Inl (TypeError, ''int() argument'')
            else Inr (usable_points (every_nth frame_skip rows)))
     \<and> (\<forall>N. 0 < N \<and> frame_skip = int N \<and> length rows = 2 * N + 1 \<longrightarrow>
          every_nth frame_skip rows = [rows ! 0, rows ! N, rows ! (2 * N)])
     \<and> (\<forall>N p0 p1 p2 frame_width frame_height.
          0 < N \<and> frame_skip = int N \<and> length rows = 2 * N + 1
          \<and> usable (rows ! 0) = Some p0 \<and> usable (rows ! N) = Some p1
          \<and> usable (rows ! (2 * N)) = Some p2 \<and> fits [p0, p1, p2]
          \<and> video_size fs video_path = Some (frame_width, frame_height)
          \<and> frame_width \<noteq> 0 \<and> frame_height \<noteq> 0
          \<and> csv_rows fs csv_path = Inr rows \<longrightarrow>
          calculate_total_distance fs csv_path video_path w h frame_skip =
            Inr (Some ((euclid p0 p1 + euclid p1 p2)
                       * ((w / real_of_int frame_width + h / real_of_int frame_height) / 2))))"
proof -
  have 1: "read_loop frame_skip (enumerate 0 rows) [] =
           (if list_ex short (every_nth frame_skip rows) then Inl (TypeError, ''int() argument'')
            else Inr (usable_points (every_nth frame_skip rows)))"
    by (rule read_points[OF assms])
  have 2: "every_nth frame_skip rows = [rows ! 0, rows ! N, rows ! (2 * N)]"
    if "0 < N \<and> frame_skip = int N \<and> length rows = 2 * N + 1" for N
    using that multiples_upto[of N] by (simp add: every_nth_nth)
  have 3: "calculate_total_distance fs csv_path video_path w h frame_skip =
            Inr (Some ((euclid p0 p1 + euclid p1 p2)
                       * ((w / real_of_int frame_width + h / real_of_int frame_height) / 2)))"
    if h: "0 < N \<and> frame_skip = int N \<and> length rows = 2 * N + 1
          \<and> usable (rows ! 0) = Some p0 \<and> usable (rows ! N) = Some p1
          \<and> usable (rows ! (2 * N)) = Some p2 \<and> fits [p0, p1, p2]
          \<and> video_size fs video_path = Some (frame_width, frame_height)
          \<and> frame_width \<noteq> 0 \<and> frame_height \<noteq> 0
          \<and> csv_rows fs csv_path = Inr rows"
    for N p0 p1 p2 frame_width frame_height
  proof -
    have e: "every_nth frame_skip rows = [rows ! 0, rows ! N, rows ! (2 * N)]"
      using 2 h by blast
    have s: "\<not> short row" if "usable row = Some p" for row p
      using that by (cases "Centroid_X row"; cases "Centroid_Y row") (simp_all add: usable_def short_def)
    have ns: "\<not> list_ex short (every_nth frame_skip rows)"
      unfolding e using h s by simp
    have u: "usable_points (every_nth frame_skip rows) = [p0, p1, p2]"
      unfolding e using h by (simp add: usable_points_def map_filter_simps)
    have f: "fits (usable_points (every_nth frame_skip rows))"
      unfolding u using h by blast
    have v: "video_size fs video_path = Some (frame_width, frame_height)"
      and n: "frame_width \<noteq> 0" "frame_height \<noteq> 0" and c: "csv_rows fs csv_path = Inr rows"
      using h by blast+
    show ?thesis
      using distance_formula[OF v n c assms ns f, of w h] unfolding u by simp
  qed
  from 1 2 3 show ?thesis by blast
qed

theorem downsampling_witness:
  "every_nth 3 seven_rows = [point_row 0 0, point_row 3 4, point_row 6 8]
   \<and> read_loop 3 (enumerate 0 seven_rows) [] = Inr [(0, 0), (3, 4), (6, 8)]
   \<and> read_loop 1 (enumerate 0 seven_rows) [] = Inl (TypeError, ''int() argument'')
   \<and> calculate_total_distance (one_table seven_rows) ''run/out/data/t.csv'' ''run/videos/t.mp4'' 28 14 3
       = Inr (Some 5)"
proof -
  have n3: "(3::int) \<noteq> 0" and n1: "(1::int) \<noteq> 0" by simp_all
  note t3 = downsampling[OF n3, of seven_rows "one_table seven_rows" "''run/videos/t.mp4''"
      "''run/out/data/t.csv''" 28 14]
  note t1 = downsampling[OF n1, of seven_rows]
  have l: "0 < (3::nat) \<and> (3::int) = int 3 \<and> length seven_rows = 2 * 3 + 1"
    by (simp add: seven_rows_def)
  have "every_nth 3 seven_rows = [seven_rows ! 0, seven_rows ! 3, seven_rows ! (2 * 3)]"
    using t3 l by blast
  then have e: "every_nth 3 seven_rows = [point_row 0 0, point_row 3 4, point_row 6 8]"
    by (simp add: seven_rows_def)
  have ns: "\<not> list_ex short (every_nth 3 seven_rows)"
    unfolding e by (simp add: short_def point_row_def)
  have u: "usable_points (every_nth 3 seven_rows) = [(0, 0), (3, 4), (6, 8)]"
    unfolding e by (simp add: usable_points_def usable_def point_row_def map_filter_simps)
  have r3: "read_loop 3 (enumerate 0 seven_rows) [] = Inr [(0, 0), (3, 4), (6, 8)]"
    using t3 ns u by simp
  have e1: "every_nth 1 seven_rows = seven_rows"
    by (simp add: every_nth_nth seven_rows_def upt_conv_Cons)
  have s1: "list_ex short (every_nth 1 seven_rows)"
    unfolding e1 by (simp add: seven_rows_def short_def short_row_def junk_row_def point_row_def)
  have r1: "read_loop 1 (enumerate 0 seven_rows) [] = Inl (TypeError, ''int() argument'')"
    using t1 s1 by simp
  have h: "0 < (3::nat) \<and> (3::int) = int 3 \<and> length seven_rows = 2 * 3 + 1
      \<and> usable (seven_rows ! 0) = Some (0, 0) \<and> usable (seven_rows ! 3) = Some (3, 4)
      \<and> usable (seven_rows ! (2 * 3)) = Some (6, 8) \<and> fits [(0, 0), (3, 4), (6, 8)]
      \<and> video_size (one_table seven_rows) ''run/videos/t.mp4'' = Some (56, 28)
      \<and> (56::int) \<noteq> 0 \<and> (28::int) \<noteq> 0
      \<and> csv_rows (one_table seven_rows) ''run/out/data/t.csv'' = Inr seven_rows"
    by (simp add: seven_rows_def usable_def point_row_def one_table_def squared_step_def)
  have "calculate_total_distance (one_table seven_rows) ''run/out/data/t.csv'' ''run/videos/t.mp4'' 28 14 3
      = Inr (Some ((euclid (0, 0) (3, 4) + euclid (3, 4) (6, 8))
                   * ((28 / real_of_int 56 + 14 / real_of_int 28) / 2)))"
    using t3 h by blast
  then have d: "calculate_total_distance (one_table seven_rows) ''run/out/data/t.csv'' ''run/videos/t.mp4'' 28 14 3
      = Inr (Some 5)"
    by (simp add: euclid_def sqrt_25)
  show ?thesis using e r3 r1 d by blast
qed

text \<open>
  Where no kept row is short, fewer than two usable points give the distance 0, whatever
  the size of the video.
\<close>

lemma zero_distance:
  assumes "video_size fs video_path = Some dims"
    and "csv_rows fs csv_path = Inr rows"
    and "frame_skip \<noteq> 0"
    and "\<not> list_ex short (every_nth frame_skip rows)"
    and "length (usable_points (every_nth frame_skip rows)) < 2"
  shows "calculate_total_distance fs csv_path video_path real_width_cm real_height_cm frame_skip =
     Inr (Some 0)"
proof (cases dims)
  case (Pair frame_width frame_height)
  show ?thesis
    using assms(4,5) by (simp add: distance_cases[OF assms(1)[unfolded Pair] assms(2,3)])
qed

text \<open>A row fails the reading loop exactly when \<open>int\<close> meets a \<open>None\<close> cell.\<close>

lemma read_row_fails:
  "(\<exists>e. read_row row = Inl e) =
     (Centroid_X row = None_value \<or> (\<exists>x. Centroid_X row = Int_text x) \<and> Centroid_Y row = None_value)"
  by (cases "Centroid_X row"; cases "Centroid_Y row")
     (simp_all add: read_row_def skipped_def)

text \<open>With the step 0 the modulo raises at the first row, and the distance is unavailable.\<close>

lemma zero_step:
  assumes "video_size fs video_path = Some dims" and "csv_rows fs csv_path = Inr (row # rows)"
  shows "calculate_total_distance fs csv_path video_path real_width_cm real_height_cm 0 = Inr None"
  using assms by (cases dims) (simp add: calculate_total_distance_def)

text \<open>
  With two or more usable points that fit and a video of width or height 0, the division
  raises outside every handler.
\<close>

lemma zero_size_raises:
  assumes "video_size fs video_path = Some (frame_width, frame_height)"
    and "frame_width = 0 \<or> frame_height = 0"
    and "csv_rows fs csv_path = Inr rows"
    and "frame_skip \<noteq> 0"
    and "\<not> list_ex short (every_nth frame_skip rows)"
    and "2 \<le> length (usable_points (every_nth frame_skip rows))"
    and "fits (usable_points (every_nth frame_skip rows))"
  shows "calculate_total_distance fs csv_path video_path real_width_cm real_height_cm frame_skip =
     Inl (ZeroDivisionError, ''division by zero'')"
  using assms(2,5,6,7) by (simp add: distance_cases[OF assms(1,3,4)])

text \<open>
  Claim C6, evaluated on the code. In a table of three rows read with step 1 the rows 0
  and 2 are complete and the row between them is short. The kept usable points are
  \<open>(0, 0)\<close> and \<open>(3, 4)\<close>, five pixels apart, and yet the distance is unavailable: the short
  row makes the reading loop leave with \<open>TypeError\<close>, as in claim C7. With a row that is no
  number in its place the row is skipped and the distance is the five pixels times the
  mean scale factor.
\<close>

theorem short_row_hides_points:
  "usable_points (every_nth 1 gap_rows) = [(0, 0), (3, 4)]
   \<and> path_length [(0, 0), (3, 4)] = 5
   \<and> calculate_total_distance (one_table gap_rows) ''run/out/data/t.csv'' ''run/videos/t.mp4'' 28 14 1
       = Inr None
   \<and> calculate_total_distance (one_table [point_row 0 0, junk_row, point_row 3 4])
         ''run/out/data/t.csv'' ''run/videos/t.mp4'' 28 14 1
       = Inr (Some (5 * ((28 / 56 + 14 / 28) / 2)))"
proof -
  have e: "every_nth 1 [a, b, c] = [a, b, c]" for a b c :: csv_row
    by (simp add: every_nth_nth upt_conv_Cons)
  have 1: "usable_points (every_nth 1 gap_rows) = [(0, 0), (3, 4)]"
    unfolding gap_rows_def e
    by (simp add: usable_points_def usable_def point_row_def short_row_def map_filter_simps)
  have 2: "path_length [(0, 0), (3, 4)] = 5"
    by (simp add: euclid_def sqrt_25)
  have v: "video_size (one_table rows) ''run/videos/t.mp4'' = Some (56, 28)"
    and c: "csv_rows (one_table rows) ''run/out/data/t.csv'' = Inr rows" for rows
    by (simp_all add: one_table_def)
  have n: "(1::int) \<noteq> 0" by simp
  have 3: "calculate_total_distance (one_table gap_rows) ''run/out/data/t.csv'' ''run/videos/t.mp4'' 28 14 1
       = Inr None"
    unfolding distance_cases[OF v c n] gap_rows_def e
    by (simp add: short_def short_row_def point_row_def)
  have 4: "calculate_total_distance (one_table [point_row 0 0, junk_row, point_row 3 4])
         ''run/out/data/t.csv'' ''run/videos/t.mp4'' 28 14 1
       = Inr (Some (5 * ((28 / 56 + 14 / 28) / 2)))"
    unfolding distance_cases[OF v c n] e
    by (simp add: short_def usable_points_def usable_def point_row_def junk_row_def
        map_filter_simps squared_step_def euclid_def sqrt_25)
  show ?thesis using 1 2 3 4 by blast
qed

text \<open>
  A step too long for a float: \<open>OverflowError\<close> leaves \<open>calculate_total_distance\<close>.
\<close>

lemma long_step_raises:
  "calculate_total_distance (one_table [point_row 0 0, point_row (2 ^ 512) 0])
     ''run/out/data/t.csv'' ''run/videos/t.mp4'' 28 14 1
   = Inl (OverflowError, ''int too large to convert to float'')"
proof -
  have e: "every_nth 1 [a, b] = [a, b]" for a b :: csv_row
    by (simp add: every_nth_nth upt_conv_Cons)
  have v: "video_size (one_table rows) ''run/videos/t.mp4'' = Some (56, 28)"
    and c: "csv_rows (one_table rows) ''run/out/data/t.csv'' = Inr rows" for rows
    by (simp_all add: one_table_def)
  have n: "(1::int) \<noteq> 0" by simp
  have p: "((2::int) ^ 512)\<^sup>2 = 2 ^ 1024" by (simp flip: power_mult)
  show ?thesis
    unfolding distance_cases[OF v c n] e
    by (simp add: short_def usable_points_def usable_def point_row_def map_filter_simps
        squared_step_def p)
qed

lemma one_table_paths:
  "dirname ''run/out'' = ''run''" "join ''run'' ''videos'' = ''run/videos''"
  "join ''run/out'' ''data'' = ''run/out/data''"
  "join ''run/out'' ''distance_summary.csv'' = ''run/out/distance_summary.csv''"
  "splitext ''t.csv'' = (''t'', ''.csv'')" "join ''run/videos'' ''t.mp4'' = ''run/videos/t.mp4''"
  "join ''run/out/data'' ''t.csv'' = ''run/out/data/t.csv''"
  "endswith (lower ''t.csv'') ''.csv''"
  by (simp_all add: dirname_def join_def rfind_def splitext_def endswith_def lower_def lower_char_def)

lemma one_table_summary:
  "calculate_summary (one_table rows) ''run/out'' None =
     (case calculate_total_distance (one_table rows) ''run/out/data/t.csv'' ''run/videos/t.mp4'' 28 14 60 of
        Inl e \<Rightarrow> Inl e
      | Inr (Some distance) \<Rightarrow> Inr (Some (''run/out/distance_summary.csv'', [(''t'', Distance distance)]))
      | Inr None \<Rightarrow> Inr (Some (''run/out/distance_summary.csv'', [(''t'', Error)])))"
proof -
  have l: "dir_listing (one_table rows) ''run/out/data'' = [''t.csv'']"
    and p: "path_exists (one_table rows) ''run/out/data''" "path_exists (one_table rows) ''run/videos''"
      "path_exists (one_table rows) ''run/videos/t.mp4''"
    by (simp_all add: one_table_def)
  show ?thesis
    unfolding calculate_summary_def Let_def one_table_paths option.case l
    using p by (simp add: one_table_paths split: sum.splits option.splits)
qed

text \<open>
  Claim C7, evaluated on the code. A table whose one row lacks its last cell leaves no
  usable point, and yet the distance is unavailable and the summary shows \<open>Error\<close>:
  \<open>int(None)\<close> raises \<open>TypeError\<close>, which the inner handler does not catch and the outer one
  turns into \<open>None\<close>. A table whose one row is complete gives the distance 0.
\<close>

theorem short_row_unavailable:
  "usable_points (every_nth 60 [short_row]) = []
   \<and> calculate_total_distance (one_table [short_row]) ''run/out/data/t.csv'' ''run/videos/t.mp4'' 28 14 60
       = Inr None
   \<and> calculate_summary (one_table [short_row]) ''run/out'' None
       = Inr (Some (''run/out/distance_summary.csv'', [(''t'', Error)]))
   \<and> calculate_total_distance (one_table [point_row 5 5]) ''run/out/data/t.csv'' ''run/videos/t.mp4'' 28 14 60
       = Inr (Some 0)"
proof -
  have e: "every_nth 60 [r] = [r]" for r :: csv_row
    by (simp add: every_nth_def)
  have 1: "usable_points (every_nth 60 [short_row]) = []"
    unfolding e by (simp add: usable_points_def usable_def short_row_def)
  have 2: "calculate_total_distance (one_table [short_row]) ''run/out/data/t.csv'' ''run/videos/t.mp4'' 28 14 60
       = Inr None"
    by (simp add: calculate_total_distance_def one_table_def read_row_def short_row_def skipped_def)
  have 3: "calculate_summary (one_table [short_row]) ''run/out'' None
       = Inr (Some (''run/out/distance_summary.csv'', [(''t'', Error)]))"
    unfolding one_table_summary 2 by simp
  have 4: "calculate_total_distance (one_table [point_row 5 5]) ''run/out/data/t.csv'' ''run/videos/t.mp4'' 28 14 60
       = Inr (Some 0)"
    by (simp add: calculate_total_distance_def one_table_def read_row_def point_row_def)
  show ?thesis using 1 2 3 4 by blast
qed

theorem short_row_unavailable_witness:
  "calculate_total_distance (one_table [short_row]) ''run/out/data/t.csv'' ''run/videos/t.mp4'' 28 14 60
     \<noteq> Inr (Some 0)
   \<and> calculate_summary (one_table [short_row]) ''run/out'' None
     \<noteq> Inr (Some (''run/out/distance_summary.csv'', [(''t'', Distance 0)]))"
proof -
  have 1: "calculate_total_distance (one_table [short_row]) ''run/out/data/t.csv'' ''run/videos/t.mp4'' 28 14 60
       = Inr None"
    by (rule short_row_unavailable[THEN conjunct2, THEN conjunct1])
  have 2: "calculate_summary (one_table [short_row]) ''run/out'' None
       = Inr (Some (''run/out/distance_summary.csv'', [(''t'', Error)]))"
    by (rule short_row_unavailable[THEN conjunct2, THEN conjunct2, THEN conjunct1])
  show ?thesis unfolding 1 2 by simp
qed

lemma summary_loop_names:
  assumes "summary_loop fs data_dir videos_dir csv_files results = Inr rows"
  shows "map fst rows = map fst results @
           map (\<lambda>f. fst (splitext f))
             (filter (\<lambda>f. path_exists fs (join videos_dir (fst (splitext f) @ ''.mp4''))) csv_files)"
  using assms
proof (induction csv_files arbitrary: results)
  case Nil
  then show ?case by simp
next
  case (Cons csv_file rest)
  let ?name = "fst (splitext csv_file)"
  show ?case
  proof (cases "path_exists fs (join videos_dir (?name @ ''.mp4''))")
    case False
    with Cons.prems have "summary_loop fs data_dir videos_dir rest results = Inr rows"
      by (simp add: Let_def)
    from Cons.IH[OF this] False show ?thesis by simp
  next
    case True
    show ?thesis
    proof (cases "calculate_total_distance fs (join data_dir csv_file) (join videos_dir (?name @ ''.mp4'')) 28 14 60")
      case (Inl e)
      with True Cons.prems show ?thesis by (simp add: Let_def)
    next
      case (Inr d)
      show ?thesis
      proof (cases d)
        case None
        with Inr True Cons.prems
        have "summary_loop fs data_dir videos_dir rest (results @ [(?name, Error)]) = Inr rows"
          by (simp add: Let_def)
        from Cons.IH[OF this] True show ?thesis by simp
      next
        case (Some distance)
        with Inr True Cons.prems
        have "summary_loop fs data_dir videos_dir rest (results @ [(?name, Distance distance)]) = Inr rows"
          by (simp add: Let_def)
        from Cons.IH[OF this] True show ?thesis by simp
      qed
    qed
  qed
qed

text \<open>
  Claim C9, as amended. When the summary is written, its rows are, in listing order, the
  stems of the tables for which a file named stem \<open>.mp4\<close> exists in the videos directory:
  a table is paired with that file only. So a table whose stem has no \<open>.mp4\<close> file there is
  skipped, whatever \<open>.avi\<close> or \<open>.mov\<close> file it came from, and a table whose stem has one is
  listed.
\<close>

theorem mp4_pairing:
  assumes "calculate_summary fs output_root videos_dir_arg = Inr (Some (summary_csv, rows))"
    and "videos_dir = (case videos_dir_arg of
                         None \<Rightarrow> join (dirname output_root) ''videos''
                       | Some d \<Rightarrow> d)"
  shows "map fst rows =
           map (\<lambda>f. fst (splitext f))
             (filter (\<lambda>f. path_exists fs (join videos_dir (fst (splitext f) @ ''.mp4'')))
                (filter (\<lambda>f. endswith (lower f) ''.csv'') (dir_listing fs (join output_root ''data''))))
     \<and> (\<not> path_exists fs (join videos_dir (name @ ''.mp4'')) \<longrightarrow> name \<notin> fst ` set rows)
     \<and> (csv_file \<in> set (dir_listing fs (join output_root ''data''))
          \<and> endswith (lower csv_file) ''.csv''
          \<and> path_exists fs (join videos_dir (fst (splitext csv_file) @ ''.mp4''))
          \<longrightarrow> fst (splitext csv_file) \<in> fst ` set rows)"
proof -
  let ?csv_files = "filter (\<lambda>f. endswith (lower f) ''.csv'') (dir_listing fs (join output_root ''data''))"
  have "summary_loop fs (join output_root ''data'') videos_dir ?csv_files [] = Inr rows"
    using assms
    by (auto simp add: calculate_summary_def Let_def split: if_splits sum.splits)
  from summary_loop_names[OF this]
  have 1: "map fst rows =
           map (\<lambda>f. fst (splitext f))
             (filter (\<lambda>f. path_exists fs (join videos_dir (fst (splitext f) @ ''.mp4''))) ?csv_files)"
    by simp
  have s: "fst ` set rows = set (map fst rows)" by simp
  have 2: "name \<notin> fst ` set rows" if "\<not> path_exists fs (join videos_dir (name @ ''.mp4''))"
    unfolding s 1 using that by auto
  have 3: "fst (splitext csv_file) \<in> fst ` set rows"
    if "csv_file \<in> set (dir_listing fs (join output_root ''data''))
          \<and> endswith (lower csv_file) ''.csv''
          \<and> path_exists fs (join videos_dir (fst (splitext csv_file) @ ''.mp4''))"
    unfolding s 1 using that by auto
  from 1 2 3 show ?thesis by blast
qed

lemma run_files_paths:
  "dirname ''run/out'' = ''run''" "join ''run'' ''videos'' = ''run/videos''"
  "join ''run/out'' ''data'' = ''run/out/data''"
  "join ''run/out'' ''distance_summary.csv'' = ''run/out/distance_summary.csv''"
  "splitext ''a.csv'' = (''a'', ''.csv'')" "splitext ''b.csv'' = (''b'', ''.csv'')"
  "join ''run/videos'' ''a.mp4'' = ''run/videos/a.mp4''"
  "join ''run/videos'' ''b.mp4'' = ''run/videos/b.mp4''"
  "join ''run/videos'' ''a.avi'' = ''run/videos/a.avi''"
  "endswith (lower ''a.csv'') ''.csv''" "endswith (lower ''b.csv'') ''.csv''"
  by (simp_all add: dirname_def join_def rfind_def splitext_def endswith_def lower_def lower_char_def)

lemma run_files_distance:
  "p \<in> set (map (join ''run/videos'') videos) \<Longrightarrow>
     calculate_total_distance (run_files tables videos) c p 28 14 60 = Inr (Some 0)"
  by (simp add: calculate_total_distance_def run_files_def read_row_def point_row_def)

text \<open>
  Claim C9 as stated fails: \<open>a.avi\<close> is a video the orchestrator accepts and its table is
  \<open>a.csv\<close>; with a file \<open>a.mp4\<close> beside it in the videos directory the table is paired
  with that file and listed in the summary.
\<close>

theorem mp4_pairing_counterexample:
  "is_video ''a.avi''
   \<and> path_exists (run_files [''a.csv''] [''a.avi'', ''a.mp4'']) ''run/videos/a.avi''
   \<and> fst (splitext ''a.avi'') = fst (splitext ''a.csv'')
   \<and> calculate_summary (run_files [''a.csv''] [''a.avi'', ''a.mp4'']) ''run/out'' None =
       Inr (Some (''run/out/distance_summary.csv'', [(''a'', Distance 0)]))"
proof -
  let ?fs = "run_files [''a.csv''] [''a.avi'', ''a.mp4'']"
  have 1: "is_video ''a.avi''"
    by (simp add: is_video_def endswith_def lower_def lower_char_def)
  have 2: "path_exists ?fs ''run/videos/a.avi''" "path_exists ?fs ''run/videos/a.mp4''"
    "path_exists ?fs ''run/out/data''" "path_exists ?fs ''run/videos''"
    "dir_listing ?fs ''run/out/data'' = [''a.csv'']"
    by (simp_all add: run_files_def run_files_paths)
  have 3: "fst (splitext ''a.avi'') = fst (splitext ''a.csv'')"
    by (simp add: splitext_def rfind_def)
  have d: "calculate_total_distance ?fs c ''run/videos/a.mp4'' 28 14 60 = Inr (Some 0)" for c
    by (rule run_files_distance) (simp add: run_files_paths)
  have 4: "calculate_summary ?fs ''run/out'' None =
       Inr (Some (''run/out/distance_summary.csv'', [(''a'', Distance 0)]))"
    unfolding calculate_summary_def Let_def run_files_paths option.case 2
    by (simp add: run_files_paths 2 d)
  show ?thesis using 1 2(1) 3 4 by blast
qed

theorem mp4_pairing_witness:
  "calculate_summary (run_files [''a.csv'', ''b.csv''] [''a.avi'', ''b.mp4'']) ''run/out'' None =
       Inr (Some (''run/out/distance_summary.csv'', [(''b'', Distance 0)]))
   \<and> ''a'' \<notin> fst ` set [(''b'', Distance 0)]
   \<and> fst (splitext ''b.csv'') \<in> fst ` set [(''b'', Distance 0)]"
proof -
  let ?fs = "run_files [''a.csv'', ''b.csv''] [''a.avi'', ''b.mp4'']"
  have 2: "\<not> path_exists ?fs ''run/videos/a.mp4''" "path_exists ?fs ''run/videos/b.mp4''"
    "path_exists ?fs ''run/out/data''" "path_exists ?fs ''run/videos''"
    "dir_listing ?fs ''run/out/data'' = [''a.csv'', ''b.csv'']"
    by (simp_all add: run_files_def run_files_paths)
  have d: "calculate_total_distance ?fs c ''run/videos/b.mp4'' 28 14 60 = Inr (Some 0)" for c
    by (rule run_files_distance) (simp add: run_files_paths)
  have 4: "calculate_summary ?fs ''run/out'' None =
       Inr (Some (''run/out/distance_summary.csv'', [(''b'', Distance 0)]))"
    unfolding calculate_summary_def Let_def run_files_paths option.case 2
    by (simp add: run_files_paths 2 d)
  have v: "''run/videos'' = (case None of None \<Rightarrow> join (dirname ''run/out'') ''videos'' | Some d \<Rightarrow> d)"
    by (simp add: run_files_paths)
  note t = mp4_pairing[OF 4 v, of "''a''" "''b.csv''"]
  have a: "''a'' \<notin> fst ` set [(''b'', Distance 0)]"
    by (rule t[THEN conjunct2, THEN conjunct1, rule_format])
       (simp add: run_files_def join_def)
  have b: "fst (splitext ''b.csv'') \<in> fst ` set [(''b'', Distance 0)]"
    by (rule t[THEN conjunct2, THEN conjunct2, rule_format])
       (simp add: run_files_paths 2)
  show ?thesis using 4 a b by blast
qed

end
